theory Spec2Isabelle
  imports Main "HOL-Library.AList" "HOL-Library.Sublist"
begin

section \<open>Tiddler extraction (Tiddler.py)\<close>

text \<open>
  A shallow embedding of the extraction core of \<^verbatim>\<open>Tiddler.py\<close>: the two regular
  expressions \<^verbatim>\<open>RE_TIDDLER\<close> and \<^verbatim>\<open>RE_OPTION\<close>, the constructor \<^verbatim>\<open>__init__\<close>, the generator
  \<^verbatim>\<open>finditer\<close> and the factory \<^verbatim>\<open>parse_from_string\<close>.

  A Python \<^verbatim>\<open>str\<close> is a \<open>string\<close>; a \<open>char\<close> stands for a code point below 256.
  An exception is a value of \<open>pyexc\<close>, a dictionary is an association list in insertion
  order (\<open>AList.update\<close> is \<^verbatim>\<open>d[k] = v\<close>), and a generator is the trace of what it
  does when it is consumed to its end.
\<close>

subsection \<open>Character classes of the \<^verbatim>\<open>re\<close> module\<close>

text \<open>
  \<^verbatim>\<open>\s\<close> and \<^verbatim>\<open>\w\<close> of a \<^verbatim>\<open>str\<close> pattern are the Unicode classes; below 256 they are
  the code points listed here. \<^verbatim>\<open>[\w\W]\<close> is every character. The proofs below use of
  the two classes only that a word character is no space and is not \<^verbatim>\<open>=\<close>.
\<close>

definition is_space :: "char \<Rightarrow> bool" where
  "is_space c =
     (let n = (of_char c :: nat)
      in (9 \<le> n \<and> n \<le> 13) \<or> (28 \<le> n \<and> n \<le> 32) \<or> n = 133 \<or> n = 160)"

definition is_word :: "char \<Rightarrow> bool" where
  "is_word c =
     (let n = (of_char c :: nat)
      in (48 \<le> n \<and> n \<le> 57) \<or> (65 \<le> n \<and> n \<le> 90) \<or> n = 95 \<or> (97 \<le> n \<and> n \<le> 122)
         \<or> n = 170 \<or> n = 178 \<or> n = 179 \<or> n = 181 \<or> n = 185 \<or> n = 186
         \<or> (188 \<le> n \<and> n \<le> 190) \<or> (192 \<le> n \<and> n \<le> 214)
         \<or> (216 \<le> n \<and> n \<le> 246) \<or> 248 \<le> n)"

subsection \<open>Backtracking matchers for the pattern pieces\<close>

text \<open>
  Each piece of a pattern takes the matcher \<open>k\<close> of what follows it in the pattern and
  the text at the current position, and tries its alternatives in the order of the
  \<^verbatim>\<open>re\<close> engine; \<open>None\<close> is a failed match, which makes the piece before it backtrack.
  The last piece is followed by \<open>Some\<close>, which returns the text after the match.
\<close>

text \<open>A literal piece, such as \<^verbatim>\<open><div\<close>.\<close>

definition lit :: "string \<Rightarrow> (string \<Rightarrow> 'a option) \<Rightarrow> string \<Rightarrow> 'a option" where
  "lit l k s = (if prefix l s then k (drop (length l) s) else None)"

text \<open>
  A group \<^verbatim>\<open>(?P<name>[\w\W]*?)\<close>: the shortest capture after which the rest of the pattern
  matches.
\<close>

fun lazy_any :: "(string \<Rightarrow> 'a option) \<Rightarrow> string \<Rightarrow> (string \<times> 'a) option" where
  "lazy_any k [] = map_option (Pair []) (k [])"
| "lazy_any k (x # xs) =
     (case k (x # xs) of
        Some r \<Rightarrow> Some ([], r)
      | None \<Rightarrow> map_option (\<lambda>(g, r). (x # g, r)) (lazy_any k xs))"

text \<open>
  The group \<^verbatim>\<open>(?P<key>\w+?)\<close>: one word character, then the shortest run of further
  word characters after which the rest matches.
\<close>

fun lazy_word1 :: "(string \<Rightarrow> 'a option) \<Rightarrow> string \<Rightarrow> (string \<times> 'a) option" where
  "lazy_word1 k [] = None"
| "lazy_word1 k (x # xs) =
     (if is_word x
      then (case k xs of
              Some r \<Rightarrow> Some ([x], r)
            | None \<Rightarrow> map_option (\<lambda>(g, r). (x # g, r)) (lazy_word1 k xs))
      else None)"

text \<open>
  The piece \<^verbatim>\<open>\s+\<close>: one space, then the longest run of further spaces after which the
  rest matches (greedy: more spaces are tried first).
\<close>

fun greedy_space1 :: "(string \<Rightarrow> 'a option) \<Rightarrow> string \<Rightarrow> 'a option" where
  "greedy_space1 k [] = None"
| "greedy_space1 k (x # xs) =
     (if is_space x
      then (case greedy_space1 k xs of Some r \<Rightarrow> Some r | None \<Rightarrow> k xs)
      else None)"

subsection \<open>\<^verbatim>\<open>RE_TIDDLER\<close> and \<^verbatim>\<open>RE_OPTION\<close>\<close>

definition div_open :: string where
  "div_open = ''<div''"

definition pre_open :: string where
  "pre_open = ''>\<newline><pre>''"

definition block_close :: string where
  "block_close = ''</pre>\<newline></div>''"

text \<open>
  One match of \<^verbatim>\<open>RE_TIDDLER\<close> at the start of the text: the groups \<^verbatim>\<open>options\<close> and
  \<^verbatim>\<open>content\<close>, and the text after the match.
\<close>

definition re_tiddler_match :: "string \<Rightarrow> (string \<times> string \<times> string) option" where
  "re_tiddler_match = lit div_open (lazy_any (lit pre_open (lazy_any (lit block_close Some))))"

text \<open>
  One match of \<^verbatim>\<open>RE_OPTION\<close> at the start of the text: the groups \<^verbatim>\<open>key\<close> and
  \<^verbatim>\<open>value\<close>, and the text after the match.
\<close>

definition re_option_match :: "string \<Rightarrow> (string \<times> string \<times> string) option" where
  "re_option_match = greedy_space1 (lazy_word1 (lit ''=\"'' (lazy_any (lit ''\"'' Some))))"

text \<open>
  \<^verbatim>\<open>re.finditer\<close>: the matches from left to right. A match is tried at every position
  in turn; after a match the scan goes on behind it. No match of these two patterns is
  empty.
\<close>

lemma lit_Some: "lit l k s = Some r \<longleftrightarrow> (\<exists>t. s = l @ t \<and> k t = Some r)"
  by (auto simp: lit_def prefix_def)

lemma lazy_any_Some: "lazy_any k s = Some (g, r) \<Longrightarrow> \<exists>t. s = g @ t \<and> k t = Some r"
proof (induction s arbitrary: g)
  case Nil
  then show ?case by auto
next
  case (Cons x xs)
  show ?case
  proof (cases "k (x # xs)")
    case None
    with Cons.prems obtain g' where g: "g = x # g'" and "lazy_any k xs = Some (g', r)"
      by auto
    with Cons.IH show ?thesis by auto
  next
    case (Some a)
    with Cons.prems show ?thesis by auto
  qed
qed

lemma lazy_word1_Some:
  "lazy_word1 k s = Some (g, r) \<Longrightarrow>
     \<exists>t. s = g @ t \<and> k t = Some r \<and> g \<noteq> [] \<and> (\<forall>c \<in> set g. is_word c)"
proof (induction s arbitrary: g)
  case Nil
  then show ?case by simp
next
  case (Cons x xs)
  then have w: "is_word x" by (simp split: if_splits)
  show ?case
  proof (cases "k xs")
    case None
    with Cons.prems w obtain g' where g: "g = x # g'" and "lazy_word1 k xs = Some (g', r)"
      by auto
    with Cons.IH w show ?thesis by auto
  next
    case (Some a)
    with Cons.prems w show ?thesis by auto
  qed
qed

lemma greedy_space1_Some:
  "greedy_space1 k s = Some r \<Longrightarrow>
     \<exists>w t. s = w @ t \<and> k t = Some r \<and> w \<noteq> [] \<and> (\<forall>c \<in> set w. is_space c)"
proof (induction s)
  case Nil
  then show ?case by simp
next
  case (Cons x xs)
  then have sp: "is_space x" by (simp split: if_splits)
  show ?case
  proof (cases "greedy_space1 k xs")
    case None
    with Cons.prems sp have "k xs = Some r" by simp
    with sp have "x # xs = [x] @ xs \<and> k xs = Some r \<and> [x] \<noteq> [] \<and> (\<forall>c \<in> set [x]. is_space c)"
      by simp
    then show ?thesis by blast
  next
    case (Some a)
    with Cons.prems sp have "greedy_space1 k xs = Some r" by simp
    with Cons.IH obtain w t where "xs = w @ t" "k t = Some r" "\<forall>c \<in> set w. is_space c"
      by blast
    with sp have "x # xs = (x # w) @ t \<and> k t = Some r \<and> x # w \<noteq> [] \<and> (\<forall>c \<in> set (x # w). is_space c)"
      by simp
    then show ?thesis by blast
  qed
qed

lemma re_tiddler_match_Some:
  assumes "re_tiddler_match s = Some (options, content, rest)"
  shows "s = div_open @ options @ pre_open @ content @ block_close @ rest"
proof -
  from assms obtain t1 where t1: "s = div_open @ t1"
    and m1: "lazy_any (lit pre_open (lazy_any (lit block_close Some))) t1 = Some (options, content, rest)"
    unfolding re_tiddler_match_def lit_Some by blast
  from lazy_any_Some [OF m1] obtain t2 where t2: "t1 = options @ t2"
    and m2: "lit pre_open (lazy_any (lit block_close Some)) t2 = Some (content, rest)"
    by blast
  from m2 obtain t3 where t3: "t2 = pre_open @ t3"
    and m3: "lazy_any (lit block_close Some) t3 = Some (content, rest)"
    unfolding lit_Some by blast
  from lazy_any_Some [OF m3] obtain t4 where t4: "t3 = content @ t4"
    and m4: "lit block_close Some t4 = Some rest"
    by blast
  from m4 have "t4 = block_close @ rest"
    unfolding lit_Some by blast
  with t1 t2 t3 t4 show ?thesis by simp
qed

lemma re_option_match_Some:
  assumes "re_option_match s = Some (key, val, rest)"
  shows "\<exists>w. s = w @ key @ ''=\"'' @ val @ ''\"'' @ rest \<and> w \<noteq> [] \<and> (\<forall>c \<in> set w. is_space c)
           \<and> key \<noteq> [] \<and> (\<forall>c \<in> set key. is_word c)"
proof -
  from greedy_space1_Some [OF assms [unfolded re_option_match_def]]
  obtain w t1 where t1: "s = w @ t1" and w: "w \<noteq> []" "\<forall>c \<in> set w. is_space c"
    and m1: "lazy_word1 (lit ''=\"'' (lazy_any (lit ''\"'' Some))) t1 = Some (key, val, rest)"
    by blast
  from lazy_word1_Some [OF m1] obtain t2 where t2: "t1 = key @ t2"
    and key: "key \<noteq> []" "\<forall>c \<in> set key. is_word c"
    and m2: "lit ''=\"'' (lazy_any (lit ''\"'' Some)) t2 = Some (val, rest)"
    by blast
  from m2 obtain t3 where t3: "t2 = ''=\"'' @ t3"
    and m3: "lazy_any (lit ''\"'' Some) t3 = Some (val, rest)"
    unfolding lit_Some by blast
  from lazy_any_Some [OF m3] obtain t4 where t4: "t3 = val @ t4"
    and m4: "lit ''\"'' Some t4 = Some rest"
    by blast
  from m4 have "t4 = ''\"'' @ rest"
    unfolding lit_Some by blast
  with t1 t2 t3 t4 w key show ?thesis by auto
qed

function re_tiddler_finditer :: "string \<Rightarrow> (string \<times> string) list" where
  "re_tiddler_finditer s =
     (case re_tiddler_match s of
        Some (options, content, rest) \<Rightarrow> (options, content) # re_tiddler_finditer rest
      | None \<Rightarrow> (case s of [] \<Rightarrow> [] | x # xs \<Rightarrow> re_tiddler_finditer xs))"
  by pat_completeness auto
termination
proof (relation "measure length")
  fix s m options p content rest
  assume "re_tiddler_match s = Some m" "(options, p) = m" "(content, rest) = p"
  then have "re_tiddler_match s = Some (options, content, rest)" by simp
  from re_tiddler_match_Some [OF this] show "(rest, s) \<in> measure length"
    by (simp add: div_open_def)
qed auto

function re_option_finditer :: "string \<Rightarrow> (string \<times> string) list" where
  "re_option_finditer s =
     (case re_option_match s of
        Some (key, val, rest) \<Rightarrow> (key, val) # re_option_finditer rest
      | None \<Rightarrow> (case s of [] \<Rightarrow> [] | x # xs \<Rightarrow> re_option_finditer xs))"
  by pat_completeness auto
termination
proof (relation "measure length")
  fix s m key p val rest
  assume "re_option_match s = Some m" "(key, p) = m" "(val, rest) = p"
  then have "re_option_match s = Some (key, val, rest)" by simp
  from re_option_match_Some [OF this] show "(rest, s) \<in> measure length" by auto
qed auto

subsection \<open>Values, exceptions and the helpers of \<^verbatim>\<open>Tw5Mixin\<close>\<close>

datatype pyexc = KeyError | ValueError | TypeError | AttributeError

text \<open>
  The values an attribute of a tiddler holds: \<^verbatim>\<open>None\<close>, a \<^verbatim>\<open>str\<close>, a list of tags or a
  timestamp of the type \<open>'d\<close> that \<^verbatim>\<open>string_to_date\<close> returns.
\<close>

datatype 'd pyval = VNone | VStr string | VList "string list" | VDate 'd

type_synonym 'd pydict = "(string \<times> 'd pyval) list"

text \<open>
  \<^verbatim>\<open>get_tag_list\<close> and \<^verbatim>\<open>string_to_date\<close> are inherited from \<^verbatim>\<open>Tw5Mixin\<close>, whose module
  is not among the sources. \<^verbatim>\<open>finditer\<close> is therefore modelled for any pair of helpers
  \<open>get_tag_list :: string \<Rightarrow> pyexc + string list\<close> and
  \<open>string_to_date :: string \<Rightarrow> pyexc + 'd\<close>, where \<open>Inl e\<close> is the helper raising \<open>e\<close>.
  The helper is applied to a value read from the dictionary; \<^verbatim>\<open>finditer\<close> only ever
  reads a \<^verbatim>\<open>str\<close> there (lemma \<open>collect_attr_str\<close> below).
\<close>

definition on_str :: "(string \<Rightarrow> pyexc + 'a) \<Rightarrow> 'd pyval \<Rightarrow> pyexc + 'a" where
  "on_str f v = (case v of VStr s \<Rightarrow> f s | _ \<Rightarrow> Inl TypeError)"

subsection \<open>The helpers of \<^verbatim>\<open>Tw5Mixin\<close>, from the specification\<close>

text \<open>
  Modelled from the spec: the timestamp value that \<^verbatim>\<open>Tw5Mixin.string_to_date\<close> returns is
  missing. The spec (4.3) names its fields: year, month, day, hour, minute, second and
  millisecond.
\<close>

record datetime =
  year :: nat
  month :: nat
  day :: nat
  hour :: nat
  minute :: nat
  second :: nat
  millisecond :: nat

text \<open>
  Modelled from the spec: reading the decimal digits of a numeric stamp, for
  \<open>string_to_date_spec\<close> below.
\<close>

definition is_digit :: "char \<Rightarrow> bool" where
  "is_digit c = (48 \<le> (of_char c :: nat) \<and> (of_char c :: nat) \<le> 57)"

definition dec :: "string \<Rightarrow> nat" where
  "dec s = foldl (\<lambda>n c. 10 * n + (of_char c - 48)) 0 s"

text \<open>
  Modelled from the spec: \<^verbatim>\<open>Tw5Mixin.string_to_date\<close> is missing. The spec (4.3) has it
  parse a fixed-width numeric stamp YYYYMMDDhhmmssSSS with year, month, day, hour,
  minute, second and millisecond fields, a malformed value being a parse error of the
  field. The parse error is Python's \<^verbatim>\<open>ValueError\<close>; the ranges of the fields are not
  checked.
\<close>

definition string_to_date_spec :: "string \<Rightarrow> pyexc + datetime" where
  "string_to_date_spec s =
     (if length s = 17 \<and> list_all is_digit s
      then Inr \<lparr>year = dec (take 4 s), month = dec (take 2 (drop 4 s)),
                day = dec (take 2 (drop 6 s)), hour = dec (take 2 (drop 8 s)),
                minute = dec (take 2 (drop 10 s)), second = dec (take 2 (drop 12 s)),
                millisecond = dec (drop 14 s)\<rparr>
      else Inl ValueError)"

lemma bracket_tag_shorter:
  assumes "lit ''[['' (lazy_any (lit '']]'' Some)) t = Some (tag, rest)"
  shows "length rest < length t"
proof -
  from assms obtain t1 where t1: "t = ''[['' @ t1"
    and m1: "lazy_any (lit '']]'' Some) t1 = Some (tag, rest)"
    unfolding lit_Some by blast
  from lazy_any_Some [OF m1] obtain t2 where t2: "t1 = tag @ t2"
    and m2: "lit '']]'' Some t2 = Some rest"
    by blast
  from m2 have "t2 = '']]'' @ rest"
    unfolding lit_Some by blast
  with t1 t2 show ?thesis by simp
qed

text \<open>
  Modelled from the spec: \<^verbatim>\<open>Tw5Mixin.get_tag_list\<close> is missing. The spec (4.3) has it
  split a tag expression into its tags in source order, a tag being a double-bracketed
  phrase \<^verbatim>\<open>[[multi word tag]]\<close> or a bare word without spaces.
\<close>

function get_tags :: "string \<Rightarrow> string list" where
  "get_tags s =
     (case dropWhile is_space s of
        [] \<Rightarrow> []
      | x # xs \<Rightarrow>
          (case lit ''[['' (lazy_any (lit '']]'' Some)) (x # xs) of
             Some (tag, rest) \<Rightarrow> tag # get_tags rest
           | None \<Rightarrow> takeWhile (\<lambda>c. \<not> is_space c) (x # xs)
                       # get_tags (dropWhile (\<lambda>c. \<not> is_space c) xs)))"
  by pat_completeness auto
termination
proof (relation "measure length")
  show "wf (measure length)" by simp
next
  fix s x xs m tag rest
  assume d: "dropWhile is_space s = x # xs"
    and m: "lit ''[['' (lazy_any (lit '']]'' Some)) (x # xs) = Some m" "(tag, rest) = m"
  from m have "lit ''[['' (lazy_any (lit '']]'' Some)) (x # xs) = Some (tag, rest)"
    by simp
  then have "length rest < length (x # xs)"
    by (rule bracket_tag_shorter)
  also have "length (x # xs) \<le> length s"
    using length_dropWhile_le [of is_space s] d by simp
  finally show "(rest, s) \<in> measure length" by simp
next
  fix s x xs
  assume d: "dropWhile is_space s = x # xs"
  have "length (dropWhile (\<lambda>c. \<not> is_space c) xs) \<le> length xs"
    by (rule length_dropWhile_le)
  also have "length xs < length (x # xs)" by simp
  also have "length (x # xs) \<le> length s"
    using length_dropWhile_le [of is_space s] d by simp
  finally show "(dropWhile (\<lambda>c. \<not> is_space c) xs, s) \<in> measure length" by simp
qed

text \<open>
  Modelled from the spec: \<^verbatim>\<open>Tw5Mixin.get_tag_list\<close> as a helper of \<^verbatim>\<open>finditer\<close>; the spec
  names no failure of the tag expression, so it raises nothing.
\<close>

definition get_tag_list_spec :: "string \<Rightarrow> pyexc + string list" where
  "get_tag_list_spec s = Inr (get_tags s)"

subsection \<open>The class \<^verbatim>\<open>Tiddler\<close>\<close>

text \<open>
  A tiddler is its instance dictionary \<^verbatim>\<open>__dict__\<close>: \<^verbatim>\<open>__init__\<close> stores six attributes
  and then updates the dictionary with every other keyword argument.
\<close>

type_synonym 'd tiddler = "'d pydict"

definition dict_update :: "'d pydict \<Rightarrow> 'd pydict \<Rightarrow> 'd pydict" where
  "dict_update kwargs d = fold (\<lambda>(k, v). AList.update k v) kwargs d"

definition init ::
  "'d pyval \<Rightarrow> 'd pyval \<Rightarrow> 'd pyval \<Rightarrow> 'd pyval \<Rightarrow> 'd pyval \<Rightarrow> 'd pyval \<Rightarrow> 'd pydict \<Rightarrow> 'd tiddler"
where
  "init content title tags created modified type kwargs =
     dict_update kwargs
       [(''content'', content),
        (''title'', title),
        (''tags'', if tags = VNone then VList [] else tags),
        (''created'', created),
        (''modified'', modified),
        (''type_'', type)]"

text \<open>
  The call \<^verbatim>\<open>cls(content, **attr)\<close>: a key of \<open>attr\<close> that names the bound parameter
  \<^verbatim>\<open>self\<close> or the positional parameter \<^verbatim>\<open>content\<close> is a second value for that parameter,
  a \<^verbatim>\<open>TypeError\<close>; the keys \<^verbatim>\<open>title\<close>, \<^verbatim>\<open>tags\<close>, \<^verbatim>\<open>created\<close>, \<^verbatim>\<open>modified\<close> and \<^verbatim>\<open>type\<close> are
  bound to their parameters, missing ones to the defaults, and the other keys, in their
  order, are \<^verbatim>\<open>kwargs\<close>.
\<close>

definition named_params :: "string list" where
  "named_params = [''title'', ''tags'', ''created'', ''modified'', ''type'']"

definition arg :: "'d pydict \<Rightarrow> string \<Rightarrow> 'd pyval \<Rightarrow> 'd pyval" where
  "arg attr name dflt = (case map_of attr name of Some v \<Rightarrow> v | None \<Rightarrow> dflt)"

definition new_tiddler :: "'d pyval \<Rightarrow> 'd pydict \<Rightarrow> pyexc + 'd tiddler" where
  "new_tiddler content attr =
     (if map_of attr ''self'' \<noteq> None \<or> map_of attr ''content'' \<noteq> None then Inl TypeError
      else Inr (init content
                  (arg attr ''title'' VNone)
                  (arg attr ''tags'' VNone)
                  (arg attr ''created'' VNone)
                  (arg attr ''modified'' VNone)
                  (arg attr ''type'' (VStr ''text/vnd.tiddlywiki''))
                  (filter (\<lambda>(k, v). k \<notin> set named_params) attr)))"

subsection \<open>\<^verbatim>\<open>finditer\<close> and \<^verbatim>\<open>parse_from_string\<close>\<close>

text \<open>Lines 38 to 43: the dictionary \<open>attr\<close> of the matches of \<^verbatim>\<open>RE_OPTION\<close>.\<close>

definition collect_attr :: "string \<Rightarrow> 'd pydict" where
  "collect_attr options =
     fold (\<lambda>(key, val) attr. AList.update key (VStr val) attr) (re_option_finditer options) []"

text \<open>
  Lines 45 to 53: the two \<^verbatim>\<open>try\<close> blocks whose handler is \<^verbatim>\<open>pass\<close>. A \<^verbatim>\<open>KeyError\<close>, of the
  lookup or of the helper, leaves \<open>attr\<close> as it is; any other exception leaves the
  generator.
\<close>

definition try_tags :: "(string \<Rightarrow> pyexc + string list) \<Rightarrow> 'd pydict \<Rightarrow> pyexc + 'd pydict" where
  "try_tags get_tag_list attr =
     (case map_of attr ''tags'' of
        None \<Rightarrow> Inr attr
      | Some v \<Rightarrow>
          (case on_str get_tag_list v of
             Inl e \<Rightarrow> if e = KeyError then Inr attr else Inl e
           | Inr tags \<Rightarrow> Inr (AList.update ''tags'' (VList tags) attr)))"

definition try_modified :: "(string \<Rightarrow> pyexc + 'd) \<Rightarrow> 'd pydict \<Rightarrow> pyexc + 'd pydict" where
  "try_modified string_to_date attr =
     (case map_of attr ''modified'' of
        None \<Rightarrow> Inr attr
      | Some v \<Rightarrow>
          (case on_str string_to_date v of
             Inl e \<Rightarrow> if e = KeyError then Inr attr else Inl e
           | Inr d \<Rightarrow> Inr (AList.update ''modified'' (VDate d) attr)))"

text \<open>
  Lines 55 to 64: the two \<^verbatim>\<open>try\<close> blocks whose handler is \<^verbatim>\<open>continue\<close>; \<open>Inr None\<close> and
  \<open>Inr True\<close> are the \<^verbatim>\<open>continue\<close>.
\<close>

definition try_created :: "(string \<Rightarrow> pyexc + 'd) \<Rightarrow> 'd pydict \<Rightarrow> pyexc + 'd pydict option" where
  "try_created string_to_date attr =
     (case map_of attr ''created'' of
        None \<Rightarrow> Inr None
      | Some v \<Rightarrow>
          (case on_str string_to_date v of
             Inl e \<Rightarrow> if e = KeyError then Inr None else Inl e
           | Inr d \<Rightarrow> Inr (Some (AList.update ''created'' (VDate d) attr))))"

definition title_continue :: "'d pydict \<Rightarrow> pyexc + bool" where
  "title_continue attr =
     (case map_of attr ''title'' of
        None \<Rightarrow> Inr True
      | Some (VStr title) \<Rightarrow> Inr (prefix ''$:/'' title)
      | Some _ \<Rightarrow> Inl AttributeError)"

text \<open>
  The body of the loop for one match: \<open>Inl e\<close> when it raises \<open>e\<close>, \<open>Inr None\<close> when it
  reaches a \<^verbatim>\<open>continue\<close>, \<open>Inr (Some t)\<close> when it yields the tiddler \<open>t\<close>.
\<close>

definition finditer_body ::
  "(string \<Rightarrow> pyexc + string list) \<Rightarrow> (string \<Rightarrow> pyexc + 'd) \<Rightarrow> string \<times> string
     \<Rightarrow> pyexc + 'd tiddler option"
where
  "finditer_body get_tag_list string_to_date m =
     (case m of (options, content) \<Rightarrow>
       (case try_tags get_tag_list (collect_attr options) of
          Inl e \<Rightarrow> Inl e
        | Inr attr1 \<Rightarrow>
       (case try_modified string_to_date attr1 of
          Inl e \<Rightarrow> Inl e
        | Inr attr2 \<Rightarrow>
       (case try_created string_to_date attr2 of
          Inl e \<Rightarrow> Inl e
        | Inr None \<Rightarrow> Inr None
        | Inr (Some attr3) \<Rightarrow>
       (case title_continue attr3 of
          Inl e \<Rightarrow> Inl e
        | Inr True \<Rightarrow> Inr None
        | Inr False \<Rightarrow>
       (case new_tiddler (VStr content) attr3 of
          Inl e \<Rightarrow> Inl e
        | Inr t \<Rightarrow> Inr (Some t)))))))"

text \<open>
  A generator, as what it does when consumed: it yields a value and goes on, stops, or
  raises.
\<close>

datatype 'a gen = Stop | Yield 'a "'a gen" | Raise pyexc

fun yields :: "'a gen \<Rightarrow> 'a list" where
  "yields Stop = []"
| "yields (Yield x g) = x # yields g"
| "yields (Raise e) = []"

fun raised :: "'a gen \<Rightarrow> pyexc option" where
  "raised Stop = None"
| "raised (Yield x g) = raised g"
| "raised (Raise e) = Some e"

fun finditer_loop ::
  "(string \<Rightarrow> pyexc + string list) \<Rightarrow> (string \<Rightarrow> pyexc + 'd) \<Rightarrow> (string \<times> string) list
     \<Rightarrow> 'd tiddler gen"
where
  "finditer_loop get_tag_list string_to_date [] = Stop"
| "finditer_loop get_tag_list string_to_date (m # ms) =
     (case finditer_body get_tag_list string_to_date m of
        Inl e \<Rightarrow> Raise e
      | Inr None \<Rightarrow> finditer_loop get_tag_list string_to_date ms
      | Inr (Some t) \<Rightarrow> Yield t (finditer_loop get_tag_list string_to_date ms))"

definition finditer ::
  "(string \<Rightarrow> pyexc + string list) \<Rightarrow> (string \<Rightarrow> pyexc + 'd) \<Rightarrow> string \<Rightarrow> 'd tiddler gen"
where
  "finditer get_tag_list string_to_date buffer =
     finditer_loop get_tag_list string_to_date (re_tiddler_finditer buffer)"

text \<open>
  \<^verbatim>\<open>parse_from_string\<close>: \<^verbatim>\<open>next\<close> runs the generator to its first yield; a generator that
  stops raises \<^verbatim>\<open>StopIteration\<close>, which is caught and gives \<^verbatim>\<open>None\<close>; an exception of the
  generator is not caught.
\<close>

definition parse_from_string ::
  "(string \<Rightarrow> pyexc + string list) \<Rightarrow> (string \<Rightarrow> pyexc + 'd) \<Rightarrow> string
     \<Rightarrow> pyexc + 'd tiddler option"
where
  "parse_from_string get_tag_list string_to_date buffer =
     (case finditer get_tag_list string_to_date buffer of
        Yield t g \<Rightarrow> Inr (Some t)
      | Stop \<Rightarrow> Inr None
      | Raise e \<Rightarrow> Inl e)"

subsection \<open>Record blocks\<close>

text \<open>
  \<open>stops_first p g\<close>: in \<open>g @ p\<close> the first occurrence of the marker \<open>p\<close> is the one at
  the end, so that a shortest capture in front of \<open>p\<close> is \<open>g\<close>. A record block is the
  text \<open>block options content\<close> whose options stop first before \<^verbatim>\<open>>\n<pre>\<close> and whose
  content stops first before \<^verbatim>\<open></pre>\n</div>\<close> (lemma \<open>re_tiddler_match_iff\<close>).
\<close>

definition stops_first :: "string \<Rightarrow> string \<Rightarrow> bool" where
  "stops_first p g = (\<not> sublist p (g @ butlast p))"

definition block :: "string \<Rightarrow> string \<Rightarrow> string" where
  "block options content = div_open @ options @ pre_open @ content @ block_close"



text \<open>
  The inclusion rules in the words of the specification, on the dictionary of a block's
  options: \<^verbatim>\<open>created\<close> is present and parses, \<^verbatim>\<open>title\<close> is present and does not begin with
  \<^verbatim>\<open>$:/\<close>.
\<close>

definition satisfies_inclusion :: "(string \<Rightarrow> pyexc + 'd) \<Rightarrow> 'd pydict \<Rightarrow> bool" where
  "satisfies_inclusion string_to_date attr =
     ((case map_of attr ''created'' of
         Some (VStr c) \<Rightarrow> (case string_to_date c of Inr d \<Rightarrow> True | Inl e \<Rightarrow> False)
       | _ \<Rightarrow> False)
      \<and> (case map_of attr ''title'' of
            Some (VStr title) \<Rightarrow> \<not> prefix ''$:/'' title
          | _ \<Rightarrow> False))"

text \<open>
  \<open>helper_ok f attr key\<close>: the helper \<open>f\<close> raises nothing on the value of \<open>key\<close>, or only
  the \<^verbatim>\<open>KeyError\<close> that the \<^verbatim>\<open>try\<close> block catches; a missing key is no error either.
\<close>

definition helper_ok :: "(string \<Rightarrow> pyexc + 'a) \<Rightarrow> 'd pydict \<Rightarrow> string \<Rightarrow> bool" where
  "helper_ok f attr key =
     (case map_of attr key of
        Some (VStr v) \<Rightarrow> (case f v of Inr x \<Rightarrow> True | Inl e \<Rightarrow> e = KeyError)
      | _ \<Rightarrow> True)"






declare re_tiddler_finditer.simps [simp del]
declare re_option_finditer.simps [simp del]
declare get_tags.simps [simp del]

section \<open>Properties\<close>

subsection \<open>The helpers from the specification\<close>

text \<open>The tag expression of the specification (section 8) and the stamp of the source's example.\<close>

lemma get_tags_example:
  "get_tags ''[[multi word tag]] tag2 tag3'' = [''multi word tag'', ''tag2'', ''tag3'']"
  by code_simp

lemma string_to_date_spec_example:
  "string_to_date_spec ''20180108222550419''
     = Inr \<lparr>year = 2018, month = 1, day = 8, hour = 22, minute = 25, second = 50, millisecond = 419\<rparr>"
  by code_simp

subsection \<open>The record matcher\<close>

lemma re_tiddler_finditer_match:
  "re_tiddler_match s = Some (options, content, rest) \<Longrightarrow>
     re_tiddler_finditer s = (options, content) # re_tiddler_finditer rest"
  by (subst re_tiddler_finditer.simps) simp

lemma markers_nonempty [simp]: "div_open \<noteq> []" "pre_open \<noteq> []" "block_close \<noteq> []"
  by (simp_all add: div_open_def pre_open_def block_close_def)

lemma re_tiddler_finditer_Nil: "re_tiddler_finditer [] = []"
  by (subst re_tiddler_finditer.simps) (simp add: re_tiddler_match_def lit_def)

lemma re_tiddler_finditer_skip:
  "re_tiddler_match (x # xs) = None \<Longrightarrow> re_tiddler_finditer (x # xs) = re_tiddler_finditer xs"
  by (subst re_tiddler_finditer.simps) simp

lemma lazy_any_first:
  "k t = Some r \<Longrightarrow> (\<forall>i < length g. k (drop i g @ t) = None) \<Longrightarrow> lazy_any k (g @ t) = Some (g, r)"
proof (induction g)
  case Nil
  then show ?case by (cases t) simp_all
next
  case (Cons x g)
  from Cons.prems(2) have "k ((x # g) @ t) = None" by fastforce
  moreover have "\<forall>i < length g. k (drop i g @ t) = None"
  proof (intro allI impI)
    fix i assume "i < length g"
    then have "Suc i < length (x # g)" by simp
    with Cons.prems(2) have "k (drop (Suc i) (x # g) @ t) = None" by blast
    then show "k (drop i g @ t) = None" by simp
  qed
  ultimately show ?case using Cons.IH [OF Cons.prems(1)] by simp
qed

lemma lazy_any_minimal:
  "lazy_any k s = Some (g, r) \<Longrightarrow> i < length g \<Longrightarrow> k (drop i s) = None"
proof (induction s arbitrary: g i)
  case Nil
  then show ?case by auto
next
  case (Cons x xs)
  show ?case
  proof (cases "k (x # xs)")
    case None
    with Cons.prems obtain g' where g: "g = x # g'" and m: "lazy_any k xs = Some (g', r)"
      by auto
    show ?thesis
    proof (cases i)
      case 0
      with None show ?thesis by simp
    next
      case (Suc j)
      with Cons.prems(2) g have "j < length g'" by simp
      from Cons.IH [OF m this] Suc show ?thesis by simp
    qed
  next
    case (Some a)
    with Cons.prems show ?thesis by auto
  qed
qed

lemma stops_first_no_prefix:
  assumes "stops_first p g" "i < length g"
  shows "\<not> prefix p (drop i g @ p @ t)"
proof
  assume pre: "prefix p (drop i g @ p @ t)"
  from assms(1) have "p \<noteq> []" by (auto simp: stops_first_def)
  then have split: "p @ t = butlast p @ last p # t" by simp
  have "length p \<le> length (drop i g @ butlast p)"
    using assms(2) \<open>p \<noteq> []\<close> by (cases p rule: rev_cases) auto
  moreover from pre split have "prefix p ((drop i g @ butlast p) @ last p # t)" by simp
  ultimately have "prefix p (drop i g @ butlast p)"
    by (metis prefix_length_prefix prefixI)
  then obtain b where "drop i g @ butlast p = p @ b" by (auto simp: prefix_def)
  then have "g @ butlast p = take i g @ p @ b"
    by (metis append.assoc append_take_drop_id)
  then have "sublist p (g @ butlast p)" by (auto simp: sublist_def)
  with assms(1) show False by (simp add: stops_first_def)
qed

lemma re_tiddler_match_block:
  assumes "stops_first pre_open options" "stops_first block_close content"
  shows "re_tiddler_match (block options content @ rest) = Some (options, content, rest)"
proof -
  let ?k2 = "lit block_close Some :: string \<Rightarrow> string option"
  let ?k1 = "lit pre_open (lazy_any ?k2)"
  have "?k2 (block_close @ rest) = Some rest"
    unfolding lit_Some by blast
  moreover have "\<forall>i < length content. ?k2 (drop i content @ block_close @ rest) = None"
    using stops_first_no_prefix [OF assms(2)] by (simp add: lit_def)
  ultimately have c: "lazy_any ?k2 (content @ block_close @ rest) = Some (content, rest)"
    by (rule lazy_any_first)
  then have "?k1 (pre_open @ content @ block_close @ rest) = Some (content, rest)"
    unfolding lit_Some [of pre_open] by blast
  moreover have "\<forall>i < length options. ?k1 (drop i options @ pre_open @ content @ block_close @ rest) = None"
    using stops_first_no_prefix [OF assms(1)] by (simp add: lit_def)
  ultimately have "lazy_any ?k1 (options @ pre_open @ content @ block_close @ rest)
      = Some (options, content, rest)"
    by (rule lazy_any_first)
  then show ?thesis
    unfolding re_tiddler_match_def block_def lit_Some [of div_open] by auto
qed

lemma re_tiddler_finditer_block:
  assumes "stops_first pre_open options" "stops_first block_close content"
  shows "re_tiddler_finditer (block options content @ rest) = (options, content) # re_tiddler_finditer rest"
  by (rule re_tiddler_finditer_match) (rule re_tiddler_match_block [OF assms])

lemma lazy_any_complete:
  "k (drop i s) = Some r \<Longrightarrow> i \<le> length s \<Longrightarrow> lazy_any k s \<noteq> None"
proof (induction s arbitrary: i)
  case Nil
  then show ?case by simp
next
  case (Cons x xs)
  show ?case
  proof (cases "k (x # xs)")
    case None
    with Cons.prems obtain j where i: "i = Suc j" by (cases i) auto
    with Cons.prems have "k (drop j xs) = Some r" "j \<le> length xs" by simp_all
    from Cons.IH [OF this] None show ?thesis by auto
  next
    case (Some a)
    then show ?thesis by simp
  qed
qed

lemma drop_shift:
  assumes "d @ p @ t = p @ u"
  shows "drop (length d) u = t"
proof -
  from assms have "u = drop (length p) (d @ p @ t)" by simp
  then have "drop (length d) u = drop (length d + length p) (d @ p @ t)"
    by (simp only: drop_drop)
  then show ?thesis by simp
qed

lemma no_prefix_stops_first:
  assumes "p \<noteq> []" "\<forall>i < length g. \<not> prefix p (drop i g @ p @ t)"
  shows "stops_first p g"
  unfolding stops_first_def
proof
  assume "sublist p (g @ butlast p)"
  then obtain a b where ab: "g @ butlast p = a @ p @ b" by (auto simp: sublist_def)
  then have "length (g @ butlast p) = length (a @ p @ b)"
    by (rule arg_cong)
  then have "length g + length (butlast p) = length a + length p + length b"
    by simp
  with assms(1) have lt: "length a < length g" by (cases p rule: rev_cases) auto
  from ab have "drop (length a) (g @ butlast p) = p @ b" by simp
  with lt have e: "drop (length a) g @ butlast p = p @ b" by simp
  from assms(1) have "drop (length a) g @ p @ t = (drop (length a) g @ butlast p) @ last p # t"
    by simp
  also have "\<dots> = p @ (b @ last p # t)"
    unfolding e by simp
  finally have "prefix p (drop (length a) g @ p @ t)"
    by (rule prefixI)
  with assms(2) lt show False by blast
qed

lemma re_tiddler_match_stops_first:
  assumes "re_tiddler_match s = Some (options, content, rest)"
  shows "stops_first pre_open options \<and> stops_first block_close content"
proof -
  let ?k2 = "lit block_close Some :: string \<Rightarrow> string option"
  let ?k1 = "lit pre_open (lazy_any ?k2)"
  from assms obtain t1 where t1: "s = div_open @ t1"
    and m1: "lazy_any ?k1 t1 = Some (options, content, rest)"
    unfolding re_tiddler_match_def lit_Some by blast
  from lazy_any_Some [OF m1] obtain t2 where t2: "t1 = options @ t2"
    and m2: "?k1 t2 = Some (content, rest)"
    by blast
  from m2 obtain t3 where t3: "t2 = pre_open @ t3"
    and m3: "lazy_any ?k2 t3 = Some (content, rest)"
    unfolding lit_Some by blast
  from lazy_any_Some [OF m3] obtain t4 where t4: "t3 = content @ t4"
    and m4: "?k2 t4 = Some rest"
    by blast
  from m4 have t4': "t4 = block_close @ rest"
    unfolding lit_Some by blast
  have "\<forall>i < length content. \<not> prefix block_close (drop i content @ block_close @ rest)"
  proof (intro allI impI)
    fix i assume i: "i < length content"
    from lazy_any_minimal [OF m3 i] have "?k2 (drop i content @ block_close @ rest) = None"
      using t4 t4' i by simp
    then show "\<not> prefix block_close (drop i content @ block_close @ rest)"
      by (simp add: lit_def split: if_splits)
  qed
  then have c: "stops_first block_close content"
    by (intro no_prefix_stops_first) (simp_all add: block_close_def)
  have "\<forall>i < length options. \<not> prefix pre_open (drop i options @ pre_open @ t3)"
  proof (intro allI impI notI)
    fix i assume i: "i < length options"
      and pre: "prefix pre_open (drop i options @ pre_open @ t3)"
    from lazy_any_minimal [OF m1 i] have none: "?k1 (drop i options @ pre_open @ t3) = None"
      using t2 t3 i by simp
    from pre obtain u where u: "drop i options @ pre_open @ t3 = pre_open @ u"
      by (auto simp: prefix_def)
    with none have nou: "lazy_any ?k2 u = None"
      unfolding u by (simp add: lit_def)
    from drop_shift [OF u] have "drop (length content) (drop (length (drop i options)) u) = t4"
      using t4 by simp
    then have "drop (length content + length (drop i options)) u = t4"
      by (simp only: drop_drop)
    with m4 have "?k2 (drop (length content + length (drop i options)) u) = Some rest"
      by simp
    moreover have "length (drop i options) + length t3 = length u"
      using arg_cong [OF u, of length] by simp
    then have "length content + length (drop i options) \<le> length u"
      using t4 by simp
    ultimately have "lazy_any ?k2 u \<noteq> None"
      by (rule lazy_any_complete)
    with nou show False by simp
  qed
  then have "stops_first pre_open options"
    by (intro no_prefix_stops_first) (simp_all add: pre_open_def)
  with c show ?thesis by simp
qed

lemma re_tiddler_match_iff:
  "re_tiddler_match s = Some (options, content, rest) \<longleftrightarrow>
     s = block options content @ rest \<and> stops_first pre_open options \<and> stops_first block_close content"
proof
  assume m: "re_tiddler_match s = Some (options, content, rest)"
  from re_tiddler_match_Some [OF m] have "s = block options content @ rest"
    by (simp add: block_def)
  with re_tiddler_match_stops_first [OF m]
  show "s = block options content @ rest \<and> stops_first pre_open options \<and> stops_first block_close content"
    by simp
next
  assume "s = block options content @ rest \<and> stops_first pre_open options \<and> stops_first block_close content"
  then show "re_tiddler_match s = Some (options, content, rest)"
    using re_tiddler_match_block by blast
qed

lemma stops_first_no_sublist:
  assumes "stops_first p g"
  shows "\<not> sublist p g"
proof
  assume "sublist p g"
  then obtain a b where "g = a @ p @ b" by (auto simp: sublist_def)
  then have "g @ butlast p = a @ p @ (b @ butlast p)" by simp
  then have "sublist p (g @ butlast p)" unfolding sublist_def by blast
  with assms show False by (simp add: stops_first_def)
qed

lemma re_tiddler_finditer_skip_prefix:
  "(\<forall>i < length pre. \<not> prefix div_open (drop i pre @ s)) \<Longrightarrow>
     re_tiddler_finditer (pre @ s) = re_tiddler_finditer s"
proof (induction pre)
  case Nil
  then show ?case by simp
next
  case (Cons x pre)
  from Cons.prems have "\<not> prefix div_open ((x # pre) @ s)" by fastforce
  then have "re_tiddler_match (x # pre @ s) = None"
    by (simp add: re_tiddler_match_def lit_def)
  then have "re_tiddler_finditer ((x # pre) @ s) = re_tiddler_finditer (pre @ s)"
    by (simp add: re_tiddler_finditer_skip)
  moreover have "\<forall>i < length pre. \<not> prefix div_open (drop i pre @ s)"
  proof (intro allI impI)
    fix i assume "i < length pre"
    then have "Suc i < length (x # pre)" by simp
    with Cons.prems have "\<not> prefix div_open (drop (Suc i) (x # pre) @ s)" by blast
    then show "\<not> prefix div_open (drop i pre @ s)" by simp
  qed
  ultimately show ?case using Cons.IH by simp
qed

lemma re_tiddler_finditer_from_match:
  "(options, content) \<in> set (re_tiddler_finditer s) \<Longrightarrow>
     \<exists>t rest. re_tiddler_match t = Some (options, content, rest)"
proof (induction s rule: re_tiddler_finditer.induct)
  case (1 s)
  show ?case
  proof (cases "re_tiddler_match s")
    case None
    show ?thesis
    proof (cases s)
      case Nil
      with "1.prems" show ?thesis by (simp add: re_tiddler_finditer_Nil)
    next
      case (Cons x xs)
      with None "1.prems" have "(options, content) \<in> set (re_tiddler_finditer xs)"
        by (simp add: re_tiddler_finditer_skip)
      with "1.IH"(1) None Cons show ?thesis by blast
    qed
  next
    case (Some m)
    then obtain o' c' r' where m: "re_tiddler_match s = Some (o', c', r')"
      by (cases m) auto
    with "1.prems" have "(options, content) = (o', c') \<or> (options, content) \<in> set (re_tiddler_finditer r')"
      by (simp add: re_tiddler_finditer_match)
    then show ?thesis
    proof
      assume "(options, content) = (o', c')"
      with m show ?thesis by blast
    next
      assume "(options, content) \<in> set (re_tiddler_finditer r')"
      with "1.IH"(2) [OF m] show ?thesis by simp
    qed
  qed
qed

lemma occurrence_inside:
  assumes "A @ p @ B = X @ Y @ Z" "length X \<le> length A" "length A + length p \<le> length X + length Y"
  shows "sublist p Y"
proof -
  let ?A' = "drop (length X) A"
  from assms(1) have "take (length X) (A @ p @ B) = take (length X) (X @ Y @ Z)" by simp
  with assms(2) have "take (length X) A = X" by simp
  then have A: "A = X @ ?A'" by (metis append_take_drop_id)
  from assms(1) have "drop (length X) (A @ p @ B) = drop (length X) (X @ Y @ Z)" by simp
  with assms(2) have e: "?A' @ p @ B = Y @ Z" by simp
  let ?n = "length ?A' + length p"
  from assms(2,3) have n: "?n \<le> length Y" by simp
  from e have "take ?n (?A' @ p @ B) = take ?n (Y @ Z)" by simp
  with n have "?A' @ p = take ?n Y" by simp
  then have "Y = ?A' @ p @ drop ?n Y" by (metis append.assoc append_take_drop_id)
  then show ?thesis unfolding sublist_def by blast
qed

lemma close_border:
  "list_all (\<lambda>k. \<not> prefix (take 2 (drop k block_close)) (take 2 div_open))
     [1..<length block_close]"
  by code_simp

lemma stops_first_appendD: "stops_first p (a @ g) \<Longrightarrow> stops_first p g"
  unfolding stops_first_def
proof
  assume n: "\<not> sublist p ((a @ g) @ butlast p)" and "sublist p (g @ butlast p)"
  then obtain u v where "g @ butlast p = u @ p @ v" by (auto simp: sublist_def)
  then have "(a @ g) @ butlast p = (a @ u) @ p @ v" by simp
  then have "sublist p ((a @ g) @ butlast p)" unfolding sublist_def by blast
  with n show False by simp
qed


lemma butlast_last_append: "p \<noteq> [] \<Longrightarrow> p @ t = butlast p @ last p # t"
  by simp

lemma match_end_cases:
  assumes s: "pre @ H1 @ block_close @ rest = A @ block_close @ r"
    and H1: "H1 = div_open @ o1 @ pre_open @ c1"
    and A: "A = div_open @ opts @ pre_open @ c"
    and sf_o: "stops_first pre_open opts" and sf_c: "stops_first block_close c"
    and sf_H1: "stops_first block_close H1"
  shows "length A + length block_close \<le> length pre \<or> A = pre @ H1"
proof (rule ccontr)
  assume "\<not> (length A + length block_close \<le> length pre \<or> A = pre @ H1)"
  then have far: "length pre < length A + length block_close" and ne: "A \<noteq> pre @ H1"
    by simp_all
  have neq: "length A \<noteq> length pre + length H1"
  proof
    assume "length A = length pre + length H1"
    with s have "A = pre @ H1"
      by (metis append.assoc append_eq_append_conv length_append)
    with ne show False by simp
  qed
  have bc: "\<And>t. block_close @ t = butlast block_close @ last block_close # t"
    by (rule butlast_last_append) simp
  have po: "\<And>t. pre_open @ t = butlast pre_open @ last pre_open # t"
    by (rule butlast_last_append) simp
  have lb: "length (butlast block_close) + 1 = length block_close"
    by (simp add: block_close_def)
  have lp: "length (butlast pre_open) + 1 = length pre_open"
    by (simp add: pre_open_def)
  show False
  proof (cases "length A < length pre + length H1")
    case True
    show False
    proof (cases "length pre \<le> length A")
      case inside: True
      have "A @ block_close @ r = pre @ (H1 @ butlast block_close) @ (last block_close # rest)"
        using s bc [of rest] by simp
      moreover note inside
      moreover have "length A + length block_close \<le> length pre + length (H1 @ butlast block_close)"
        using True lb by simp
      ultimately have "sublist block_close (H1 @ butlast block_close)"
        by (rule occurrence_inside)
      with sf_H1 show False by (simp add: stops_first_def)
    next
      case False
      define k where "k = length pre - length A"
      from False far have k: "0 < k" "k < length block_close" "length pre = length A + k"
        by (simp_all add: k_def)
      from s have "drop (length pre) (pre @ H1 @ block_close @ rest)
          = drop (length A + k) (A @ block_close @ r)"
        using k by simp
      then have e0: "drop k block_close @ r = H1 @ block_close @ rest"
        using k by simp
      have e1: "take 2 (drop k block_close @ r) = take 2 (H1 @ block_close @ rest)"
        by (simp only: e0)
      have e2: "take 2 (H1 @ block_close @ rest) = take 2 div_open"
        unfolding H1 by (simp add: div_open_def)
      have "prefix (take 2 (drop k block_close)) (take 2 (drop k block_close @ r))"
        by (simp add: take_append prefix_def)
      then have "prefix (take 2 (drop k block_close)) (take 2 div_open)"
        unfolding e1 e2 .
      moreover from k have "k \<in> set [1..<length block_close]" by simp
      ultimately show False
        using close_border unfolding list_all_iff by blast
    qed
  next
    case False
    with neq have gt: "length pre + length H1 < length A" by simp
    show False
    proof (cases "length (div_open @ opts @ pre_open) \<le> length pre + length H1")
      case True
      have "(pre @ H1) @ block_close @ rest
          = (div_open @ opts @ pre_open) @ (c @ butlast block_close) @ (last block_close # r)"
        using s A bc [of r] by simp
      moreover have "length (div_open @ opts @ pre_open) \<le> length (pre @ H1)"
        using True by simp
      moreover have "length (pre @ H1) + length block_close
          \<le> length (div_open @ opts @ pre_open) + length (c @ butlast block_close)"
        using gt A lb by simp
      ultimately have "sublist block_close (c @ butlast block_close)"
        by (rule occurrence_inside)
      with sf_c show False by (simp add: stops_first_def)
    next
      case False
      have "(pre @ div_open @ o1) @ pre_open @ (c1 @ block_close @ rest)
          = div_open @ (opts @ butlast pre_open) @ (last pre_open # c @ block_close @ r)"
        using s A H1 po [of "c @ block_close @ r"] by simp
      moreover have "length div_open \<le> length (pre @ div_open @ o1)"
        by simp
      moreover have "length (pre @ div_open @ o1) + length pre_open
          \<le> length div_open + length (opts @ butlast pre_open)"
        using False H1 lp by simp
      ultimately have "sublist pre_open (opts @ butlast pre_open)"
        by (rule occurrence_inside)
      with sf_o show False by (simp add: stops_first_def)
    qed
  qed
qed

lemma content_suffix:
  assumes e: "div_open @ opts @ pre_open @ c = pre @ div_open @ o1 @ pre_open @ c1"
    and sf_o: "stops_first pre_open opts"
  shows "suffix c1 c"
proof -
  have le: "length c1 \<le> length c"
  proof (rule ccontr)
    assume "\<not> length c1 \<le> length c"
    then have lt: "length c < length c1" by simp
    have lp: "length (butlast pre_open) + 1 = length pre_open"
      by (simp add: pre_open_def)
    have "div_open @ (opts @ butlast pre_open) @ (last pre_open # c)
        = div_open @ opts @ pre_open @ c"
      by (simp add: pre_open_def)
    also have "\<dots> = (pre @ div_open @ o1) @ pre_open @ c1"
      using e by simp
    finally have "(pre @ div_open @ o1) @ pre_open @ c1
        = div_open @ (opts @ butlast pre_open) @ (last pre_open # c)"
      by (rule sym)
    moreover have "length div_open \<le> length (pre @ div_open @ o1)"
      by simp
    moreover have "length (pre @ div_open @ o1) + length pre_open
        \<le> length div_open + length (opts @ butlast pre_open)"
      using arg_cong [OF e, of length] lt lp by simp
    ultimately have "sublist pre_open (opts @ butlast pre_open)"
      by (rule occurrence_inside)
    with sf_o show False by (simp add: stops_first_def)
  qed
  have "suffix c1 (pre @ div_open @ o1 @ pre_open @ c1)"
    by (metis append.assoc suffixI)
  moreover have "suffix c (pre @ div_open @ o1 @ pre_open @ c1)"
    using e by (metis append.assoc suffixI)
  ultimately show ?thesis
    using le by (rule suffix_length_suffix)
qed

lemma scan_reaches_block_end:
  assumes sf_o1: "stops_first pre_open o1"
    and sf_H1: "stops_first block_close (div_open @ o1 @ pre_open @ c1)"
  shows "\<exists>ms p opts c. re_tiddler_finditer (pre @ block o1 c1 @ rest)
        = ms @ (opts, c) # re_tiddler_finditer rest
      \<and> pre @ block o1 c1 = p @ block opts c \<and> suffix c1 c"
proof (induction "length pre" arbitrary: pre rule: less_induct)
  case less
  let ?H1 = "div_open @ o1 @ pre_open @ c1"
  let ?s = "pre @ block o1 c1 @ rest"
  have sf_c1: "stops_first block_close c1"
    using stops_first_appendD [of block_close "div_open @ o1 @ pre_open" c1] sf_H1 by simp
  show ?case
  proof (cases "re_tiddler_match ?s")
    case None
    show ?thesis
    proof (cases pre)
      case Nil
      with None re_tiddler_match_block [OF sf_o1 sf_c1, of rest] show ?thesis by simp
    next
      case (Cons x pre')
      with None have "re_tiddler_finditer ?s = re_tiddler_finditer (pre' @ block o1 c1 @ rest)"
        by (simp add: re_tiddler_finditer_skip)
      moreover from Cons have "length pre' < length pre" by simp
      from less [OF this] obtain ms p opts c where
        "re_tiddler_finditer (pre' @ block o1 c1 @ rest) = ms @ (opts, c) # re_tiddler_finditer rest"
        "pre' @ block o1 c1 = p @ block opts c" "suffix c1 c"
        by blast
      ultimately have "re_tiddler_finditer ?s = ms @ (opts, c) # re_tiddler_finditer rest
          \<and> pre @ block o1 c1 = (x # p) @ block opts c \<and> suffix c1 c"
        using Cons by simp
      then show ?thesis by blast
    qed
  next
    case (Some m)
    then obtain opts c r where m: "re_tiddler_match ?s = Some (opts, c, r)"
      by (cases m) auto
    let ?A = "div_open @ opts @ pre_open @ c"
    from re_tiddler_match_Some [OF m] have s: "?s = ?A @ block_close @ r"
      by simp
    from re_tiddler_match_stops_first [OF m]
    have sf: "stops_first pre_open opts" "stops_first block_close c"
      by simp_all
    have s': "pre @ ?H1 @ block_close @ rest = ?A @ block_close @ r"
      using s by (simp add: block_def)
    from match_end_cases [OF s' refl refl sf sf_H1]
    have "length ?A + length block_close \<le> length pre \<or> ?A = pre @ ?H1" .
    then show ?thesis
    proof
      assume le: "length ?A + length block_close \<le> length pre"
      let ?M = "?A @ block_close"
      let ?pre' = "drop (length ?M) pre"
      from s' have "take (length ?M) (pre @ ?H1 @ block_close @ rest) = take (length ?M) (?M @ r)"
        by simp
      with le have tk: "take (length ?M) pre = ?M" by simp
      then have pre: "pre = ?M @ ?pre'"
        by (metis append_take_drop_id)
      from s' have "drop (length ?M) (pre @ ?H1 @ block_close @ rest) = drop (length ?M) (?M @ r)"
        by simp
      with le have r: "r = ?pre' @ block o1 c1 @ rest"
        by (simp add: block_def)
      have "length ?pre' < length pre"
        using le by (simp add: div_open_def)
      from less [OF this] obtain ms p opts' c' where ih:
        "re_tiddler_finditer (?pre' @ block o1 c1 @ rest) = ms @ (opts', c') # re_tiddler_finditer rest"
        "?pre' @ block o1 c1 = p @ block opts' c'" "suffix c1 c'"
        by blast
      from m have "re_tiddler_finditer ?s = (opts, c) # re_tiddler_finditer r"
        by (rule re_tiddler_finditer_match)
      with r ih(1) have "re_tiddler_finditer ?s
          = ((opts, c) # ms) @ (opts', c') # re_tiddler_finditer rest"
        by simp
      moreover have "pre @ block o1 c1 = (?M @ p) @ block opts' c'"
        using pre ih(2) by (metis append.assoc)
      ultimately show ?thesis using ih(3) by blast
    next
      assume eq: "?A = pre @ ?H1"
      with s' have "r = rest" by simp
      with m have "re_tiddler_finditer ?s = [] @ (opts, c) # re_tiddler_finditer rest"
        by (simp add: re_tiddler_finditer_match)
      moreover have "pre @ block o1 c1 = [] @ block opts c"
        using eq by (simp add: block_def)
      moreover have "suffix c1 c"
        using eq sf(1) by (intro content_suffix [of opts c pre o1 c1]) simp_all
      ultimately show ?thesis by blast
    qed
  qed
qed

text \<open>
  C5, as amended. Two adjacent record blocks, the first of which holds the closing marker
  \<^verbatim>\<open></pre>\n</div>\<close> only at its end, are never merged, whatever text precedes and follows
  them: one match ends exactly where the first block ends, with the content of that block
  at the end of its content capture, and the next match is the second block. When no
  \<^verbatim>\<open><div\<close> precedes two adjacent blocks, the two matches are the two blocks. The content of
  every match of \<^verbatim>\<open>RE_TIDDLER\<close> stops at the first closing marker, so it never reaches into
  the next block. (In the counterexample the options of the first block hold a closing
  marker: an earlier match ends there, and the options of the next match run from the
  first block across its end into the second.)
\<close>

theorem adjacent_blocks_not_merged:
  "(stops_first pre_open o1 \<and> stops_first block_close (div_open @ o1 @ pre_open @ c1)
      \<and> stops_first pre_open o2 \<and> stops_first block_close c2 \<longrightarrow>
      (\<exists>ms p opts c.
         re_tiddler_finditer (pre @ block o1 c1 @ block o2 c2 @ post)
           = ms @ (opts, c) # (o2, c2) # re_tiddler_finditer post
         \<and> pre @ block o1 c1 = p @ block opts c \<and> suffix c1 c))
   \<and> (stops_first div_open pre
      \<and> stops_first pre_open o1 \<and> stops_first block_close c1
      \<and> stops_first pre_open o2 \<and> stops_first block_close c2 \<longrightarrow>
      re_tiddler_finditer (pre @ block o1 c1 @ block o2 c2 @ post)
        = (o1, c1) # (o2, c2) # re_tiddler_finditer post)
   \<and> (\<forall>(options, content) \<in> set (re_tiddler_finditer buffer).
        stops_first block_close content \<and> \<not> sublist block_close content)"
proof (intro conjI impI)
  assume a: "stops_first pre_open o1 \<and> stops_first block_close (div_open @ o1 @ pre_open @ c1)
      \<and> stops_first pre_open o2 \<and> stops_first block_close c2"
  then have b1: "stops_first pre_open o1" "stops_first block_close (div_open @ o1 @ pre_open @ c1)"
    and b2: "stops_first pre_open o2" "stops_first block_close c2"
    by simp_all
  from scan_reaches_block_end [OF b1, of pre "block o2 c2 @ post"] obtain ms p opts c where
    "re_tiddler_finditer (pre @ block o1 c1 @ block o2 c2 @ post)
       = ms @ (opts, c) # re_tiddler_finditer (block o2 c2 @ post)"
    "pre @ block o1 c1 = p @ block opts c" "suffix c1 c"
    by blast
  moreover have "re_tiddler_finditer (block o2 c2 @ post) = (o2, c2) # re_tiddler_finditer post"
    using b2 by (rule re_tiddler_finditer_block)
  ultimately have "re_tiddler_finditer (pre @ block o1 c1 @ block o2 c2 @ post)
           = ms @ (opts, c) # (o2, c2) # re_tiddler_finditer post
         \<and> pre @ block o1 c1 = p @ block opts c \<and> suffix c1 c"
    by simp
  then show "\<exists>ms p opts c.
         re_tiddler_finditer (pre @ block o1 c1 @ block o2 c2 @ post)
           = ms @ (opts, c) # (o2, c2) # re_tiddler_finditer post
         \<and> pre @ block o1 c1 = p @ block opts c \<and> suffix c1 c"
    by blast
next
  assume a: "stops_first div_open pre
      \<and> stops_first pre_open o1 \<and> stops_first block_close c1
      \<and> stops_first pre_open o2 \<and> stops_first block_close c2"
  let ?t = "o1 @ pre_open @ c1 @ block_close @ block o2 c2 @ post"
  from a have "stops_first div_open pre" by simp
  from stops_first_no_prefix [OF this]
  have "\<forall>i < length pre. \<not> prefix div_open (drop i pre @ div_open @ ?t)"
    by blast
  then have "re_tiddler_finditer (pre @ div_open @ ?t) = re_tiddler_finditer (div_open @ ?t)"
    by (rule re_tiddler_finditer_skip_prefix)
  then have "re_tiddler_finditer (pre @ block o1 c1 @ block o2 c2 @ post)
      = re_tiddler_finditer (block o1 c1 @ block o2 c2 @ post)"
    by (simp add: block_def)
  also have "\<dots> = (o1, c1) # re_tiddler_finditer (block o2 c2 @ post)"
    using a by (intro re_tiddler_finditer_block) simp_all
  also have "re_tiddler_finditer (block o2 c2 @ post) = (o2, c2) # re_tiddler_finditer post"
    using a by (intro re_tiddler_finditer_block) simp_all
  finally show "re_tiddler_finditer (pre @ block o1 c1 @ block o2 c2 @ post)
      = (o1, c1) # (o2, c2) # re_tiddler_finditer post" .
next
  show "\<forall>(options, content) \<in> set (re_tiddler_finditer buffer).
      stops_first block_close content \<and> \<not> sublist block_close content"
  proof (intro ballI, clarify)
    fix options content
    assume "(options, content) \<in> set (re_tiddler_finditer buffer)"
    from re_tiddler_finditer_from_match [OF this] obtain t rest
      where "re_tiddler_match t = Some (options, content, rest)" by blast
    from re_tiddler_match_stops_first [OF this] have "stops_first block_close content" by simp
    with stops_first_no_sublist [OF this]
    show "stops_first block_close content \<and> \<not> sublist block_close content" by simp
  qed
qed

theorem adjacent_blocks_not_merged_witness:
  "stops_first pre_open '' title=\"a\" created=\"20180108222550419\"''
   \<and> stops_first block_close
        (div_open @ '' title=\"a\" created=\"20180108222550419\"'' @ pre_open
         @ ''one </pre> and </div> inside'')
   \<and> stops_first pre_open '' title=\"b\"''
   \<and> stops_first block_close ''two''
   \<and> (\<exists>ms p opts c.
         re_tiddler_finditer
           (''<div id=\"storeArea\">\<newline>''
            @ block '' title=\"a\" created=\"20180108222550419\"'' ''one </pre> and </div> inside''
            @ block '' title=\"b\"'' ''two''
            @ ''</div>'')
           = ms @ (opts, c) # ('' title=\"b\"'', ''two'') # re_tiddler_finditer ''</div>''
         \<and> ''<div id=\"storeArea\">\<newline>''
            @ block '' title=\"a\" created=\"20180108222550419\"'' ''one </pre> and </div> inside''
           = p @ block opts c
         \<and> suffix ''one </pre> and </div> inside'' c)
   \<and> re_tiddler_finditer
        (''<div id=\"storeArea\">\<newline>''
         @ block '' title=\"a\" created=\"20180108222550419\"'' ''one </pre> and </div> inside''
         @ block '' title=\"b\"'' ''two''
         @ ''</div>'')
       = [('' id=\"storeArea\">\<newline><div title=\"a\" created=\"20180108222550419\"'',
           ''one </pre> and </div> inside''),
          ('' title=\"b\"'', ''two'')]
   \<and> stops_first div_open ''<p>intro</p>''
   \<and> stops_first block_close ''one </pre> and </div> inside''
   \<and> re_tiddler_finditer
        (''<p>intro</p>''
         @ block '' title=\"a\" created=\"20180108222550419\"'' ''one </pre> and </div> inside''
         @ block '' title=\"b\"'' ''two''
         @ ''<p>end</p>'')
       = [('' title=\"a\" created=\"20180108222550419\"'', ''one </pre> and </div> inside''),
          ('' title=\"b\"'', ''two'')]
   \<and> \<not> sublist block_close ''one </pre> and </div> inside''"
proof -
  let ?o1 = "'' title=\"a\" created=\"20180108222550419\"''"
  let ?c1 = "''one </pre> and </div> inside''"
  let ?o2 = "'' title=\"b\"''"
  let ?c2 = "''two''"
  let ?store = "''<div id=\"storeArea\">\<newline>'' @ block ?o1 ?c1 @ block ?o2 ?c2 @ ''</div>''"
  let ?buffer = "''<p>intro</p>'' @ block ?o1 ?c1 @ block ?o2 ?c2 @ ''<p>end</p>''"
  have h1: "stops_first pre_open ?o1 \<and> stops_first block_close (div_open @ ?o1 @ pre_open @ ?c1)
      \<and> stops_first pre_open ?o2 \<and> stops_first block_close ?c2"
    by code_simp
  have h2: "stops_first div_open ''<p>intro</p>''
      \<and> stops_first pre_open ?o1 \<and> stops_first block_close ?c1
      \<and> stops_first pre_open ?o2 \<and> stops_first block_close ?c2"
    by code_simp
  have post: "re_tiddler_finditer ''<p>end</p>'' = []"
    by code_simp
  have s: "re_tiddler_finditer ?store
       = [('' id=\"storeArea\">\<newline><div title=\"a\" created=\"20180108222550419\"'', ?c1),
          (?o2, ?c2)]"
    by code_simp
  from adjacent_blocks_not_merged
    [of ?o1 ?c1 ?o2 ?c2 "''<div id=\"storeArea\">\<newline>''" "''</div>''" ?buffer] h1
  have e: "\<exists>ms p opts c.
         re_tiddler_finditer ?store = ms @ (opts, c) # (?o2, ?c2) # re_tiddler_finditer ''</div>''
         \<and> ''<div id=\"storeArea\">\<newline>'' @ block ?o1 ?c1 = p @ block opts c
         \<and> suffix ?c1 c"
    and b: "\<forall>(options, content) \<in> set (re_tiddler_finditer ?buffer).
        stops_first block_close content \<and> \<not> sublist block_close content"
    by blast+
  from adjacent_blocks_not_merged
    [of ?o1 ?c1 ?o2 ?c2 "''<p>intro</p>''" "''<p>end</p>''" ?buffer] h2 post
  have m: "re_tiddler_finditer ?buffer = [(?o1, ?c1), (?o2, ?c2)]"
    by simp
  from b have n: "\<not> sublist block_close ?c1"
    unfolding m by simp
  from h1 h2 e s m n show ?thesis by blast
qed

theorem adjacent_blocks_merged_counterexample:
  "re_tiddler_finditer (block '' x</pre>\<newline></div>'' ''<div bar'' @ block '' t'' ''y'')
     = [('' x</pre>\<newline></div>'', ''<div bar''), ('' t'', ''y'')]
   \<and> re_tiddler_finditer
        (''<div p>\<newline><pre>'' @ block '' x</pre>\<newline></div>'' ''<div bar'' @ block '' t'' ''y'')
     = [('' p'', ''<div x''), ('' bar</pre>\<newline></div><div t'', ''y'')]"
  by code_simp

subsection \<open>The attribute tokenizer\<close>











lemma fold_update_lookup:
  "map_of (fold (\<lambda>(k, v) a. AList.update k (f v) a) xs acc) key
     = (case map_of (rev xs) key of Some v \<Rightarrow> Some (f v) | None \<Rightarrow> map_of acc key)"
proof (induction xs arbitrary: acc)
  case Nil
  then show ?case by simp
next
  case (Cons x xs)
  obtain k v where x: "x = (k, v)" by (cases x)
  show ?case
    by (simp add: x Cons.IH update_conv' map_add_def split: option.splits)
qed

lemma collect_attr_lookup:
  "map_of (collect_attr options) key = map_option VStr (map_of (rev (re_option_finditer options)) key)"
  by (simp add: collect_attr_def fold_update_lookup split: option.splits)






subsection \<open>The loop of \<^verbatim>\<open>finditer\<close>\<close>

lemma collect_attr_str:
  "map_of (collect_attr options) key = Some v \<Longrightarrow> \<exists>x. v = VStr x"
  by (auto simp: collect_attr_lookup)

lemma fold_update_distinct:
  "distinct (map fst acc) \<Longrightarrow>
     distinct (map fst (fold (\<lambda>(k, v) a. AList.update k (f v) a) xs acc))"
proof (induction xs arbitrary: acc)
  case Nil
  then show ?case by simp
next
  case (Cons x xs)
  obtain k v where x: "x = (k, v)" by (cases x)
  from Cons.prems have "distinct (map fst (AList.update k (f v) acc))"
    by (rule distinct_update)
  from Cons.IH [OF this] show ?case by (simp add: x)
qed

lemma collect_attr_distinct: "distinct (map fst (collect_attr options))"
  by (simp add: collect_attr_def fold_update_distinct)

lemma map_of_rev_distinct: "distinct (map fst xs) \<Longrightarrow> map_of (rev xs) = map_of xs"
proof (induction xs)
  case Nil
  then show ?case by simp
next
  case (Cons x xs)
  then have "map_of xs (fst x) = None"
    by (simp add: map_of_eq_None_iff)
  with Cons show ?case
    by (cases x) (auto simp: fun_eq_iff map_add_def split: option.splits)
qed

lemma dict_update_lookup:
  "distinct (map fst kwargs) \<Longrightarrow>
     map_of (dict_update kwargs d) key
       = (case map_of kwargs key of Some v \<Rightarrow> Some v | None \<Rightarrow> map_of d key)"
  using fold_update_lookup [of "\<lambda>v. v" kwargs d key]
  by (simp add: dict_update_def map_of_rev_distinct)

lemma kwargs_lookup:
  "map_of (filter (\<lambda>(k, v). k \<notin> set named_params) attr) key
     = (if key \<in> set named_params then None else map_of attr key)"
proof -
  have "filter (\<lambda>(k, v). k \<notin> set named_params) attr = AList.restrict (- set named_params) attr"
    by (simp add: AList.restrict_eq)
  then show ?thesis by (simp add: restr_conv' restrict_map_def)
qed

lemma kwargs_distinct:
  "distinct (map fst attr) \<Longrightarrow> distinct (map fst (filter (\<lambda>(k, v). k \<notin> set named_params) attr))"
proof -
  have "filter (\<lambda>(k, v). k \<notin> set named_params) attr = AList.restrict (- set named_params) attr"
    by (simp add: AList.restrict_eq)
  then show "distinct (map fst attr) \<Longrightarrow> ?thesis" by (simp add: distinct_restr)
qed

lemma new_tiddler_lookup:
  assumes "new_tiddler content attr = Inr t" "distinct (map fst attr)"
  shows "map_of t key =
     (if key = ''content'' then Some content
      else if key = ''title'' then Some (arg attr ''title'' VNone)
      else if key = ''tags'' then
        Some (if arg attr ''tags'' VNone = VNone then VList [] else arg attr ''tags'' VNone)
      else if key = ''created'' then Some (arg attr ''created'' VNone)
      else if key = ''modified'' then Some (arg attr ''modified'' VNone)
      else if key = ''type'' then None
      else if key = ''type_'' then
        (case map_of attr ''type_'' of
           Some v \<Rightarrow> Some v
         | None \<Rightarrow> Some (arg attr ''type'' (VStr ''text/vnd.tiddlywiki'')))
      else map_of attr key)"
proof -
  from assms(1) have c: "map_of attr ''content'' = None"
    and t: "t = init content (arg attr ''title'' VNone) (arg attr ''tags'' VNone)
          (arg attr ''created'' VNone) (arg attr ''modified'' VNone)
          (arg attr ''type'' (VStr ''text/vnd.tiddlywiki''))
          (filter (\<lambda>(k, v). k \<notin> set named_params) attr)"
    by (auto simp: new_tiddler_def split: if_splits)
  let ?kw = "filter (\<lambda>(k, v). k \<notin> set named_params) attr"
  have d: "distinct (map fst ?kw)"
    using assms(2) by (rule kwargs_distinct)
  have kw: "map_of ?kw key = (if key \<in> set named_params then None else map_of attr key)"
    by (rule kwargs_lookup)
  have np: "key \<in> set named_params \<longleftrightarrow>
      key = ''title'' \<or> key = ''tags'' \<or> key = ''created'' \<or> key = ''modified'' \<or> key = ''type''"
    by (simp add: named_params_def)
  show ?thesis
    unfolding t init_def dict_update_lookup [OF d] kw np
    using c by (auto split: option.splits)
qed

lemma try_tags_Inr:
  assumes "try_tags get_tag_list attr = Inr attr1"
  shows "(\<forall>key. key \<noteq> ''tags'' \<longrightarrow> map_of attr1 key = map_of attr key)
    \<and> (map_of attr1 ''tags'' = None \<longleftrightarrow> map_of attr ''tags'' = None)
    \<and> (map_of attr1 ''tags'' \<noteq> Some VNone \<or> map_of attr ''tags'' = Some VNone)
    \<and> (distinct (map fst attr) \<longrightarrow> distinct (map fst attr1))"
  using assms
  by (auto simp: try_tags_def update_conv' distinct_update split: option.splits sum.splits if_splits)

lemma try_modified_Inr:
  assumes "try_modified string_to_date attr = Inr attr1"
  shows "(\<forall>key. key \<noteq> ''modified'' \<longrightarrow> map_of attr1 key = map_of attr key)
    \<and> (distinct (map fst attr) \<longrightarrow> distinct (map fst attr1))"
  using assms
  by (auto simp: try_modified_def update_conv' distinct_update split: option.splits sum.splits if_splits)

lemma try_created_Some:
  assumes "try_created string_to_date attr = Inr (Some attr1)"
  shows "(\<forall>key. key \<noteq> ''created'' \<longrightarrow> map_of attr1 key = map_of attr key)
    \<and> (\<exists>v d. map_of attr ''created'' = Some v \<and> on_str string_to_date v = Inr d)
    \<and> (distinct (map fst attr) \<longrightarrow> distinct (map fst attr1))"
  using assms
  by (auto simp: try_created_def update_conv' distinct_update split: option.splits sum.splits if_splits)

lemma try_created_None:
  assumes "try_created string_to_date attr = Inr None"
  shows "map_of attr ''created'' = None
    \<or> (\<exists>v. map_of attr ''created'' = Some v \<and> on_str string_to_date v = Inl KeyError)"
  using assms
  by (auto simp: try_created_def split: option.splits sum.splits if_splits)


lemma finditer_body_Inr:
  assumes "finditer_body get_tag_list (string_to_date :: string \<Rightarrow> pyexc + 'd) (options, content) = Inr r"
  shows "\<exists>attr1 attr2. try_tags get_tag_list (collect_attr options) = Inr attr1
      \<and> try_modified string_to_date attr1 = Inr attr2
      \<and> ((try_created string_to_date attr2 = Inr None \<and> r = None)
          \<or> (\<exists>attr3. try_created string_to_date attr2 = Inr (Some attr3)
                \<and> ((title_continue attr3 = Inr True \<and> r = None)
                    \<or> (title_continue attr3 = Inr False
                        \<and> (\<exists>t. new_tiddler (VStr content) attr3 = Inr t \<and> r = Some t)))))"
proof (cases "try_tags get_tag_list (collect_attr options :: 'd pydict)")
  case (Inl e)
  with assms show ?thesis by (simp add: finditer_body_def)
next
  case s1: (Inr attr1)
  show ?thesis
  proof (cases "try_modified string_to_date attr1")
    case (Inl e)
    with assms s1 show ?thesis by (simp add: finditer_body_def)
  next
    case s2: (Inr attr2)
    show ?thesis
    proof (cases "try_created string_to_date attr2")
      case (Inl e)
      with assms s1 s2 show ?thesis by (simp add: finditer_body_def)
    next
      case s3: (Inr c)
      show ?thesis
      proof (cases c)
        case None
        with assms s1 s2 s3 show ?thesis by (simp add: finditer_body_def)
      next
        case (Some attr3)
        show ?thesis
        proof (cases "title_continue attr3")
          case (Inl e)
          with assms s1 s2 s3 Some show ?thesis by (simp add: finditer_body_def)
        next
          case s4: (Inr skip)
          show ?thesis
          proof (cases skip)
            case True
            with assms s1 s2 s3 Some s4 show ?thesis by (simp add: finditer_body_def)
          next
            case False
            with assms s1 s2 s3 Some s4 show ?thesis
              by (cases "new_tiddler (VStr content) attr3") (simp_all add: finditer_body_def)
          qed
        qed
      qed
    qed
  qed
qed

lemma title_continue_False:
  "title_continue attr = Inr False \<longleftrightarrow>
     (\<exists>title. map_of attr ''title'' = Some (VStr title) \<and> \<not> prefix ''$:/'' title)"
  by (auto simp: title_continue_def split: option.splits pyval.splits)

lemma satisfies_inclusion_iff:
  "satisfies_inclusion string_to_date attr \<longleftrightarrow>
     (\<exists>c d. map_of attr ''created'' = Some (VStr c) \<and> string_to_date c = Inr d)
     \<and> (\<exists>title. map_of attr ''title'' = Some (VStr title) \<and> \<not> prefix ''$:/'' title)"
  by (auto simp: satisfies_inclusion_def split: option.splits pyval.splits sum.splits)

lemma finditer_body_Some:
  assumes "finditer_body get_tag_list (string_to_date :: string \<Rightarrow> pyexc + 'd) (options, content)
      = Inr (Some t)"
  shows "\<exists>attr3. new_tiddler (VStr content) attr3 = Inr t \<and> distinct (map fst attr3)
      \<and> (\<forall>key. key \<noteq> ''tags'' \<and> key \<noteq> ''modified'' \<and> key \<noteq> ''created'' \<longrightarrow>
            map_of attr3 key = map_of (collect_attr options) key)
      \<and> (map_of attr3 ''tags'' = None \<longleftrightarrow> map_of (collect_attr options :: 'd pydict) ''tags'' = None)
      \<and> map_of attr3 ''tags'' \<noteq> Some VNone
      \<and> satisfies_inclusion string_to_date (collect_attr options)"
proof -
  let ?attr = "collect_attr options :: 'd pydict"
  from finditer_body_Inr [OF assms] obtain attr1 attr2 where
    s1: "try_tags get_tag_list ?attr = Inr attr1" and
    s2: "try_modified string_to_date attr1 = Inr attr2" and
    alt: "(try_created string_to_date attr2 = Inr None \<and> Some t = None)
          \<or> (\<exists>attr3. try_created string_to_date attr2 = Inr (Some attr3)
                \<and> ((title_continue attr3 = Inr True \<and> Some t = None)
                    \<or> (title_continue attr3 = Inr False
                        \<and> (\<exists>t'. new_tiddler (VStr content) attr3 = Inr t' \<and> Some t = Some t'))))"
    by blast
  from alt obtain attr3 where
    s3: "try_created string_to_date attr2 = Inr (Some attr3)" and
    alt2: "(title_continue attr3 = Inr True \<and> Some t = None)
           \<or> (title_continue attr3 = Inr False
               \<and> (\<exists>t'. new_tiddler (VStr content) attr3 = Inr t' \<and> Some t = Some t'))"
    by auto
  from alt2 have s4: "title_continue attr3 = Inr False"
    and s5: "new_tiddler (VStr content) attr3 = Inr t"
    by auto
  note t1 = try_tags_Inr [OF s1] and t2 = try_modified_Inr [OF s2] and t3 = try_created_Some [OF s3]
  have "distinct (map fst ?attr)"
    by (rule collect_attr_distinct)
  with t1 have "distinct (map fst attr1)"
    by simp
  then have "distinct (map fst attr2)"
    using t2 by simp
  then have d: "distinct (map fst attr3)"
    using t3 by simp
  have other: "\<forall>key. key \<noteq> ''tags'' \<and> key \<noteq> ''modified'' \<and> key \<noteq> ''created'' \<longrightarrow>
      map_of attr3 key = map_of ?attr key"
    using t1 t2 t3 by simp
  have tags: "map_of attr3 ''tags'' = map_of attr1 ''tags''"
    using t2 t3 by simp
  have "map_of ?attr ''tags'' \<noteq> Some VNone"
  proof
    assume "map_of ?attr ''tags'' = Some VNone"
    from collect_attr_str [OF this] show False by simp
  qed
  with t1 tags have tn: "map_of attr3 ''tags'' \<noteq> Some VNone" by auto
  from t1 tags have tz: "map_of attr3 ''tags'' = None \<longleftrightarrow> map_of ?attr ''tags'' = None"
    by simp
  from t3 obtain v d where v: "map_of attr2 ''created'' = Some v" "on_str string_to_date v = Inr d"
    by blast
  have "map_of attr2 ''created'' = map_of ?attr ''created''"
    using t1 t2 by simp
  with v have v': "map_of ?attr ''created'' = Some v" by simp
  from collect_attr_str [OF v'] obtain c where "v = VStr c" by blast
  with v v' have c: "map_of ?attr ''created'' = Some (VStr c)" "string_to_date c = Inr d"
    by (simp_all add: on_str_def)
  from s4 obtain title where ti: "map_of attr3 ''title'' = Some (VStr title)" "\<not> prefix ''$:/'' title"
    unfolding title_continue_False by blast
  with other have "map_of ?attr ''title'' = Some (VStr title)" by simp
  with c ti have "satisfies_inclusion string_to_date ?attr"
    unfolding satisfies_inclusion_iff by blast
  with s5 d other tz tn show ?thesis
    by (intro exI [of _ attr3]) simp
qed


lemma try_tags_ok:
  assumes "helper_ok get_tag_list (collect_attr options :: 'd pydict) ''tags''"
  shows "\<exists>attr1. try_tags get_tag_list (collect_attr options :: 'd pydict) = Inr attr1"
proof (cases "map_of (collect_attr options :: 'd pydict) ''tags''")
  case None
  then show ?thesis by (simp add: try_tags_def)
next
  case (Some v)
  from collect_attr_str [OF Some] obtain x where x: "v = VStr x" by blast
  show ?thesis
  proof (cases "get_tag_list x")
    case (Inl e)
    with assms Some x have "e = KeyError" by (simp add: helper_ok_def)
    with Inl Some x show ?thesis by (simp add: try_tags_def on_str_def)
  next
    case (Inr ts)
    with Some x show ?thesis by (simp add: try_tags_def on_str_def)
  qed
qed

lemma try_modified_ok:
  assumes "try_tags get_tag_list (collect_attr options :: 'd pydict) = Inr attr1"
    and "helper_ok (string_to_date :: string \<Rightarrow> pyexc + 'd) (collect_attr options :: 'd pydict) ''modified''"
  shows "\<exists>attr2. try_modified string_to_date attr1 = Inr attr2"
proof -
  have same: "map_of attr1 ''modified'' = map_of (collect_attr options) ''modified''"
    using try_tags_Inr [OF assms(1)] by simp
  show ?thesis
  proof (cases "map_of (collect_attr options :: 'd pydict) ''modified''")
    case None
    with same show ?thesis by (simp add: try_modified_def)
  next
    case (Some v)
    from collect_attr_str [OF Some] obtain x where x: "v = VStr x" by blast
    show ?thesis
    proof (cases "string_to_date x")
      case (Inl e)
      with assms(2) Some x have "e = KeyError" by (simp add: helper_ok_def)
      with Inl Some x same show ?thesis by (simp add: try_modified_def on_str_def)
    next
      case (Inr d)
      with Some x same show ?thesis by (simp add: try_modified_def on_str_def)
    qed
  qed
qed

lemma finditer_body_modified_raises:
  assumes "helper_ok get_tag_list (collect_attr options :: 'd pydict) ''tags''"
    and "map_of (collect_attr options :: 'd pydict) ''modified'' = Some (VStr v)"
    and "(string_to_date :: string \<Rightarrow> pyexc + 'd) v = Inl e" "e \<noteq> KeyError"
  shows "finditer_body get_tag_list string_to_date (options, content) = Inl e"
proof -
  from try_tags_ok [OF assms(1)] obtain attr1
    where s1: "try_tags get_tag_list (collect_attr options :: 'd pydict) = Inr attr1" by blast
  have "map_of attr1 ''modified'' = Some (VStr v)"
    using try_tags_Inr [OF s1] assms(2) by simp
  with assms(3,4) have "try_modified string_to_date attr1 = Inl e"
    by (simp add: try_modified_def on_str_def)
  with s1 show ?thesis by (simp add: finditer_body_def)
qed

lemma finditer_body_created_raises:
  assumes "helper_ok get_tag_list (collect_attr options :: 'd pydict) ''tags''"
    and "helper_ok (string_to_date :: string \<Rightarrow> pyexc + 'd) (collect_attr options :: 'd pydict) ''modified''"
    and "map_of (collect_attr options :: 'd pydict) ''created'' = Some (VStr v)"
    and "(string_to_date :: string \<Rightarrow> pyexc + 'd) v = Inl e" "e \<noteq> KeyError"
  shows "finditer_body get_tag_list string_to_date (options, content) = Inl e"
proof -
  from try_tags_ok [OF assms(1)] obtain attr1
    where s1: "try_tags get_tag_list (collect_attr options :: 'd pydict) = Inr attr1" by blast
  from try_modified_ok [OF s1 assms(2)] obtain attr2
    where s2: "try_modified string_to_date attr1 = Inr attr2" by blast
  have "map_of attr2 ''created'' = Some (VStr v)"
    using try_tags_Inr [OF s1] try_modified_Inr [OF s2] assms(3) by simp
  with assms(4,5) have "try_created string_to_date attr2 = Inl e"
    by (simp add: try_created_def on_str_def)
  with s1 s2 show ?thesis by (simp add: finditer_body_def)
qed

lemma finditer_body_content_raises:
  assumes "helper_ok get_tag_list (collect_attr options :: 'd pydict) ''tags''"
    and "helper_ok (string_to_date :: string \<Rightarrow> pyexc + 'd) (collect_attr options :: 'd pydict) ''modified''"
    and "satisfies_inclusion string_to_date (collect_attr options :: 'd pydict)"
    and "map_of (collect_attr options :: 'd pydict) ''content'' \<noteq> None"
  shows "finditer_body get_tag_list string_to_date (options, content) = Inl TypeError"
proof -
  let ?attr = "collect_attr options :: 'd pydict"
  from try_tags_ok [OF assms(1)] obtain attr1
    where s1: "try_tags get_tag_list ?attr = Inr attr1" by blast
  from try_modified_ok [OF s1 assms(2)] obtain attr2
    where s2: "try_modified string_to_date attr1 = Inr attr2" by blast
  have same: "\<forall>key. key \<noteq> ''tags'' \<and> key \<noteq> ''modified'' \<longrightarrow> map_of attr2 key = map_of ?attr key"
    using try_tags_Inr [OF s1] try_modified_Inr [OF s2] by simp
  from assms(3) obtain c d title where c: "map_of ?attr ''created'' = Some (VStr c)"
    "string_to_date c = Inr d" and ti: "map_of ?attr ''title'' = Some (VStr title)"
    "\<not> prefix ''$:/'' title"
    unfolding satisfies_inclusion_iff by blast
  from c same have s3: "try_created string_to_date attr2
      = Inr (Some (AList.update ''created'' (VDate d) attr2))"
    by (simp add: try_created_def on_str_def)
  let ?attr3 = "AList.update ''created'' (VDate d) attr2"
  from ti same have s4: "title_continue ?attr3 = Inr False"
    unfolding title_continue_False by (simp add: update_conv')
  from assms(4) same have "map_of ?attr3 ''content'' \<noteq> None"
    by (simp add: update_conv')
  then have "new_tiddler (VStr content) ?attr3 = Inl TypeError"
    by (simp add: new_tiddler_def)
  with s1 s2 s3 s4 show ?thesis by (simp add: finditer_body_def)
qed

lemma finditer_loop_append:
  "raised (finditer_loop get_tag_list string_to_date pre) = None \<Longrightarrow>
     yields (finditer_loop get_tag_list string_to_date (pre @ ms))
       = yields (finditer_loop get_tag_list string_to_date pre)
         @ yields (finditer_loop get_tag_list string_to_date ms)
     \<and> raised (finditer_loop get_tag_list string_to_date (pre @ ms))
       = raised (finditer_loop get_tag_list string_to_date ms)"
proof (induction pre)
  case Nil
  then show ?case by simp
next
  case (Cons m pre)
  show ?case
  proof (cases "finditer_body get_tag_list string_to_date m")
    case (Inl e)
    with Cons.prems show ?thesis by simp
  next
    case (Inr r)
    with Cons show ?thesis by (cases r) simp_all
  qed
qed

lemma finditer_raises_at:
  assumes "re_tiddler_finditer buffer = pre @ m # post"
    and "raised (finditer_loop get_tag_list string_to_date pre) = None"
    and "finditer_body get_tag_list string_to_date m = Inl e"
  shows "yields (finditer get_tag_list string_to_date buffer)
       = yields (finditer_loop get_tag_list string_to_date pre)
     \<and> raised (finditer get_tag_list string_to_date buffer) = Some e"
  using finditer_loop_append [OF assms(2), of "m # post"] assms(1,3)
  by (simp add: finditer_def)


lemma yields_finditer_loop:
  "t \<in> set (yields (finditer_loop get_tag_list string_to_date ms)) \<Longrightarrow>
     \<exists>m \<in> set ms. finditer_body get_tag_list string_to_date m = Inr (Some t)"
proof (induction ms)
  case Nil
  then show ?case by simp
next
  case (Cons m ms)
  show ?case
  proof (cases "finditer_body get_tag_list string_to_date m")
    case (Inl e)
    with Cons.prems show ?thesis by simp
  next
    case (Inr r)
    with Cons show ?thesis by (cases r) auto
  qed
qed













text \<open>
  C2, as amended. A block whose \<^verbatim>\<open>created\<close> value makes \<^verbatim>\<open>string_to_date\<close> raise an
  exception other than \<^verbatim>\<open>KeyError\<close> yields no tiddler, and the exception is not caught:
  \<^verbatim>\<open>finditer\<close> yields the tiddlers of the blocks before it and then raises that
  exception, so the scan does not go on to the next match.
\<close>

theorem created_parse_error_raises:
  assumes "re_tiddler_finditer buffer = pre @ (options, content) # post"
    and "raised (finditer_loop get_tag_list string_to_date pre) = None"
    and "helper_ok get_tag_list (collect_attr options :: 'd pydict) ''tags''"
    and "helper_ok (string_to_date :: string \<Rightarrow> pyexc + 'd) (collect_attr options :: 'd pydict) ''modified''"
    and "map_of (collect_attr options :: 'd pydict) ''created'' = Some (VStr v)"
    and "string_to_date v = Inl e" "e \<noteq> KeyError"
  shows "yields (finditer get_tag_list string_to_date buffer)
       = yields (finditer_loop get_tag_list string_to_date pre)
     \<and> raised (finditer get_tag_list string_to_date buffer) = Some e"
  using assms(1,2)
proof (rule finditer_raises_at)
  show "finditer_body get_tag_list string_to_date (options, content) = Inl e"
    using assms(3-7) by (rule finditer_body_created_raises)
qed

theorem created_parse_error_raises_witness:
  "re_tiddler_finditer
      (block '' title=\"a\" created=\"20180108222550419\"'' ''one''
       @ block '' title=\"b\" created=\"2018-01-08\"'' ''two''
       @ block '' title=\"c\" created=\"20180108222550419\"'' ''three'')
     = [('' title=\"a\" created=\"20180108222550419\"'', ''one'')]
       @ ('' title=\"b\" created=\"2018-01-08\"'', ''two'')
       # [('' title=\"c\" created=\"20180108222550419\"'', ''three'')]
   \<and> raised (finditer_loop get_tag_list_spec string_to_date_spec
        [('' title=\"a\" created=\"20180108222550419\"'', ''one'')]) = None
   \<and> helper_ok get_tag_list_spec (collect_attr '' title=\"b\" created=\"2018-01-08\"'' :: datetime pydict) ''tags''
   \<and> helper_ok string_to_date_spec (collect_attr '' title=\"b\" created=\"2018-01-08\"'' :: datetime pydict) ''modified''
   \<and> map_of (collect_attr '' title=\"b\" created=\"2018-01-08\"'' :: datetime pydict) ''created''
       = Some (VStr ''2018-01-08'')
   \<and> string_to_date_spec ''2018-01-08'' = Inl ValueError
   \<and> ValueError \<noteq> KeyError
   \<and> map (\<lambda>t. map_of t ''title'')
        (yields (finditer get_tag_list_spec string_to_date_spec
          (block '' title=\"a\" created=\"20180108222550419\"'' ''one''
           @ block '' title=\"b\" created=\"2018-01-08\"'' ''two''
           @ block '' title=\"c\" created=\"20180108222550419\"'' ''three'')))
       = [Some (VStr ''a'')]
   \<and> raised (finditer get_tag_list_spec string_to_date_spec
          (block '' title=\"a\" created=\"20180108222550419\"'' ''one''
           @ block '' title=\"b\" created=\"2018-01-08\"'' ''two''
           @ block '' title=\"c\" created=\"20180108222550419\"'' ''three''))
       = Some ValueError"
proof -
  let ?buffer = "block '' title=\"a\" created=\"20180108222550419\"'' ''one''
       @ block '' title=\"b\" created=\"2018-01-08\"'' ''two''
       @ block '' title=\"c\" created=\"20180108222550419\"'' ''three''"
  let ?pre = "[('' title=\"a\" created=\"20180108222550419\"'', ''one'')]"
  have h1: "re_tiddler_finditer ?buffer
     = ?pre @ ('' title=\"b\" created=\"2018-01-08\"'', ''two'')
       # [('' title=\"c\" created=\"20180108222550419\"'', ''three'')]"
    by code_simp
  have h2: "raised (finditer_loop get_tag_list_spec string_to_date_spec ?pre) = None"
    by code_simp
  have h3: "helper_ok get_tag_list_spec (collect_attr '' title=\"b\" created=\"2018-01-08\"'' :: datetime pydict) ''tags''"
    by code_simp
  have h4: "helper_ok string_to_date_spec (collect_attr '' title=\"b\" created=\"2018-01-08\"'' :: datetime pydict) ''modified''"
    by code_simp
  have h5: "map_of (collect_attr '' title=\"b\" created=\"2018-01-08\"'' :: datetime pydict) ''created''
       = Some (VStr ''2018-01-08'')"
    by code_simp
  have h6: "string_to_date_spec ''2018-01-08'' = Inl ValueError"
    by code_simp
  have h7: "ValueError \<noteq> KeyError"
    by simp
  have y: "map (\<lambda>t. map_of t ''title'')
      (yields (finditer_loop get_tag_list_spec string_to_date_spec ?pre)) = [Some (VStr ''a'')]"
    by code_simp
  from created_parse_error_raises [OF h1 h2 h3 h4 h5 h6 h7] h1 h2 h3 h4 h5 h6 h7 y
  show ?thesis by simp
qed

theorem created_parse_error_counterexample:
  "finditer get_tag_list_spec string_to_date_spec
     (''<div title=\"a\" created=\"2018-01-08\">\<newline><pre>one</pre>\<newline></div>''
      @ ''<div title=\"b\" created=\"20180108222550419\">\<newline><pre>two</pre>\<newline></div>'')
   = Raise ValueError"
  by code_simp

lemma try_modified_value:
  assumes "try_modified string_to_date attr1 = Inr attr2"
  shows "map_of attr2 ''modified''
      = (case map_of attr1 ''modified'' of
           None \<Rightarrow> None
         | Some v \<Rightarrow> Some (case on_str string_to_date v of Inr d \<Rightarrow> VDate d | Inl e \<Rightarrow> v))"
  using assms
  by (auto simp: try_modified_def update_conv' split: option.splits sum.splits if_splits)

lemma finditer_body_modified:
  assumes "finditer_body get_tag_list (string_to_date :: string \<Rightarrow> pyexc + 'd) (options, content)
      = Inr (Some t)"
  shows "map_of t ''modified''
      = Some (case map_of (collect_attr options :: 'd pydict) ''modified'' of
                None \<Rightarrow> VNone
              | Some v \<Rightarrow> (case on_str string_to_date v of Inr d \<Rightarrow> VDate d | Inl e \<Rightarrow> v))"
proof -
  let ?attr = "collect_attr options :: 'd pydict"
  from finditer_body_Inr [OF assms] obtain attr1 attr2 where
    s1: "try_tags get_tag_list ?attr = Inr attr1" and
    s2: "try_modified string_to_date attr1 = Inr attr2" and
    alt: "(try_created string_to_date attr2 = Inr None \<and> Some t = None)
          \<or> (\<exists>attr3. try_created string_to_date attr2 = Inr (Some attr3)
                \<and> ((title_continue attr3 = Inr True \<and> Some t = None)
                    \<or> (title_continue attr3 = Inr False
                        \<and> (\<exists>t'. new_tiddler (VStr content) attr3 = Inr t' \<and> Some t = Some t'))))"
    by blast
  from alt obtain attr3 where
    s3: "try_created string_to_date attr2 = Inr (Some attr3)" and
    alt2: "(title_continue attr3 = Inr True \<and> Some t = None)
           \<or> (title_continue attr3 = Inr False
               \<and> (\<exists>t'. new_tiddler (VStr content) attr3 = Inr t' \<and> Some t = Some t'))"
    by auto
  from alt2 have s5: "new_tiddler (VStr content) attr3 = Inr t"
    by auto
  note t1 = try_tags_Inr [OF s1] and t2 = try_modified_Inr [OF s2] and t3 = try_created_Some [OF s3]
  have "distinct (map fst ?attr)"
    by (rule collect_attr_distinct)
  with t1 have "distinct (map fst attr1)" by simp
  with t2 have "distinct (map fst attr2)" by simp
  with t3 have d: "distinct (map fst attr3)" by simp
  have "map_of attr3 ''modified'' = map_of attr2 ''modified''"
    using t3 by simp
  moreover have "map_of attr1 ''modified'' = map_of ?attr ''modified''"
    using t1 by simp
  ultimately have "map_of attr3 ''modified''
      = (case map_of ?attr ''modified'' of
           None \<Rightarrow> None
         | Some v \<Rightarrow> Some (case on_str string_to_date v of Inr d \<Rightarrow> VDate d | Inl e \<Rightarrow> v))"
    using try_modified_value [OF s2] by simp
  then show ?thesis
    using new_tiddler_lookup [OF s5 d, of "''modified''"]
    by (simp add: arg_def split: option.splits)
qed

text \<open>
  C3, as amended. A block whose \<^verbatim>\<open>modified\<close> value makes \<^verbatim>\<open>string_to_date\<close> raise an
  exception other than \<^verbatim>\<open>KeyError\<close> yields no tiddler: \<^verbatim>\<open>finditer\<close> yields the tiddlers of
  the blocks before it and then raises that exception. Only a missing \<^verbatim>\<open>modified\<close>
  attribute leaves the field at its default: in a yielded tiddler \<^verbatim>\<open>modified\<close> is \<^verbatim>\<open>None\<close>
  exactly when the block has no such attribute, and a value that parses is stored as
  its timestamp.
\<close>

theorem modified_parse_error_raises:
  "(re_tiddler_finditer buffer = pre @ (options, content) # post
      \<and> raised (finditer_loop get_tag_list string_to_date pre) = None
      \<and> helper_ok get_tag_list (collect_attr options :: 'd pydict) ''tags''
      \<and> map_of (collect_attr options :: 'd pydict) ''modified'' = Some (VStr v)
      \<and> (string_to_date :: string \<Rightarrow> pyexc + 'd) v = Inl e \<and> e \<noteq> KeyError \<longrightarrow>
      yields (finditer get_tag_list string_to_date buffer)
        = yields (finditer_loop get_tag_list string_to_date pre)
      \<and> raised (finditer get_tag_list string_to_date buffer) = Some e)
   \<and> (\<forall>options' content' t.
         finditer_body get_tag_list string_to_date (options', content') = Inr (Some t) \<longrightarrow>
           (map_of t ''modified'' = Some VNone
              \<longleftrightarrow> map_of (collect_attr options' :: 'd pydict) ''modified'' = None)
           \<and> (\<forall>w d. map_of (collect_attr options' :: 'd pydict) ''modified'' = Some (VStr w)
                  \<and> string_to_date w = Inr d \<longrightarrow> map_of t ''modified'' = Some (VDate d)))"
proof (rule conjI; intro allI impI)
  assume a: "re_tiddler_finditer buffer = pre @ (options, content) # post
      \<and> raised (finditer_loop get_tag_list string_to_date pre) = None
      \<and> helper_ok get_tag_list (collect_attr options :: 'd pydict) ''tags''
      \<and> map_of (collect_attr options :: 'd pydict) ''modified'' = Some (VStr v)
      \<and> string_to_date v = Inl e \<and> e \<noteq> KeyError"
  then have a1: "re_tiddler_finditer buffer = pre @ (options, content) # post"
    and a2: "raised (finditer_loop get_tag_list string_to_date pre) = None"
    and a3: "helper_ok get_tag_list (collect_attr options :: 'd pydict) ''tags''"
    and a4: "map_of (collect_attr options :: 'd pydict) ''modified'' = Some (VStr v)"
    and a5: "string_to_date v = Inl e" and a6: "e \<noteq> KeyError"
    by simp_all
  from a3 a4 a5 a6 have "finditer_body get_tag_list string_to_date (options, content) = Inl e"
    by (rule finditer_body_modified_raises)
  with a1 a2 show "yields (finditer get_tag_list string_to_date buffer)
        = yields (finditer_loop get_tag_list string_to_date pre)
      \<and> raised (finditer get_tag_list string_to_date buffer) = Some e"
    by (rule finditer_raises_at)
next
  fix options' content' and t :: "'d tiddler"
  assume b: "finditer_body get_tag_list string_to_date (options', content') = Inr (Some t)"
  note m = finditer_body_modified [OF b]
  have none: "map_of t ''modified'' = Some VNone
      \<longleftrightarrow> map_of (collect_attr options' :: 'd pydict) ''modified'' = None"
  proof (cases "map_of (collect_attr options' :: 'd pydict) ''modified''")
    case None
    with m show ?thesis by simp
  next
    case (Some x)
    from collect_attr_str [OF Some] obtain w where "x = VStr w" by blast
    with m Some show ?thesis
      by (simp add: on_str_def split: sum.splits)
  qed
  have date: "\<forall>w d. map_of (collect_attr options' :: 'd pydict) ''modified'' = Some (VStr w)
      \<and> string_to_date w = Inr d \<longrightarrow> map_of t ''modified'' = Some (VDate d)"
    using m by (auto simp: on_str_def)
  from none date show "(map_of t ''modified'' = Some VNone
        \<longleftrightarrow> map_of (collect_attr options' :: 'd pydict) ''modified'' = None)
      \<and> (\<forall>w d. map_of (collect_attr options' :: 'd pydict) ''modified'' = Some (VStr w)
            \<and> string_to_date w = Inr d \<longrightarrow> map_of t ''modified'' = Some (VDate d))"
    by simp
qed

theorem modified_parse_error_raises_witness:
  "re_tiddler_finditer
      (block '' title=\"a\" created=\"20180108222550419\"'' ''one''
       @ block '' title=\"b\" created=\"20180108222550419\" modified=\"yesterday\"'' ''two'')
     = [('' title=\"a\" created=\"20180108222550419\"'', ''one'')]
       @ ('' title=\"b\" created=\"20180108222550419\" modified=\"yesterday\"'', ''two'') # []
   \<and> raised (finditer_loop get_tag_list_spec string_to_date_spec
        [('' title=\"a\" created=\"20180108222550419\"'', ''one'')]) = None
   \<and> helper_ok get_tag_list_spec
        (collect_attr '' title=\"b\" created=\"20180108222550419\" modified=\"yesterday\"'' :: datetime pydict)
        ''tags''
   \<and> map_of (collect_attr '' title=\"b\" created=\"20180108222550419\" modified=\"yesterday\"''
        :: datetime pydict) ''modified'' = Some (VStr ''yesterday'')
   \<and> string_to_date_spec ''yesterday'' = Inl ValueError
   \<and> ValueError \<noteq> KeyError
   \<and> map (\<lambda>t. map_of t ''title'')
        (yields (finditer get_tag_list_spec string_to_date_spec
          (block '' title=\"a\" created=\"20180108222550419\"'' ''one''
           @ block '' title=\"b\" created=\"20180108222550419\" modified=\"yesterday\"'' ''two'')))
       = [Some (VStr ''a'')]
   \<and> raised (finditer get_tag_list_spec string_to_date_spec
          (block '' title=\"a\" created=\"20180108222550419\"'' ''one''
           @ block '' title=\"b\" created=\"20180108222550419\" modified=\"yesterday\"'' ''two''))
       = Some ValueError
   \<and> finditer_body get_tag_list_spec string_to_date_spec
        ('' title=\"a\" created=\"20180108222550419\"'', ''one'')
       = Inr (Some [(''content'', VStr ''one''), (''title'', VStr ''a''), (''tags'', VList []),
           (''created'', VDate \<lparr>year = 2018, month = 1, day = 8, hour = 22, minute = 25,
                                  second = 50, millisecond = 419\<rparr>),
           (''modified'', VNone), (''type_'', VStr ''text/vnd.tiddlywiki'')])
   \<and> map_of (collect_attr '' title=\"a\" created=\"20180108222550419\"'' :: datetime pydict) ''modified''
       = None
   \<and> finditer_body get_tag_list_spec string_to_date_spec
        ('' title=\"c\" created=\"20180108222550419\" modified=\"20180111174922056\"'', ''three'')
       = Inr (Some [(''content'', VStr ''three''), (''title'', VStr ''c''), (''tags'', VList []),
           (''created'', VDate \<lparr>year = 2018, month = 1, day = 8, hour = 22, minute = 25,
                                  second = 50, millisecond = 419\<rparr>),
           (''modified'', VDate \<lparr>year = 2018, month = 1, day = 11, hour = 17, minute = 49,
                                   second = 22, millisecond = 56\<rparr>),
           (''type_'', VStr ''text/vnd.tiddlywiki'')])
   \<and> map_of (collect_attr '' title=\"c\" created=\"20180108222550419\" modified=\"20180111174922056\"''
        :: datetime pydict) ''modified'' = Some (VStr ''20180111174922056'')
   \<and> string_to_date_spec ''20180111174922056''
       = Inr \<lparr>year = 2018, month = 1, day = 11, hour = 17, minute = 49, second = 22, millisecond = 56\<rparr>"
proof -
  let ?buffer = "block '' title=\"a\" created=\"20180108222550419\"'' ''one''
       @ block '' title=\"b\" created=\"20180108222550419\" modified=\"yesterday\"'' ''two''"
  let ?pre = "[('' title=\"a\" created=\"20180108222550419\"'', ''one'')]"
  let ?options = "'' title=\"b\" created=\"20180108222550419\" modified=\"yesterday\"''"
  let ?oa = "'' title=\"a\" created=\"20180108222550419\"''"
  let ?oc = "'' title=\"c\" created=\"20180108222550419\" modified=\"20180111174922056\"''"
  let ?ta = "[(''content'', VStr ''one''), (''title'', VStr ''a''), (''tags'', VList []),
           (''created'', VDate \<lparr>year = 2018, month = 1, day = 8, hour = 22, minute = 25,
                                  second = 50, millisecond = 419\<rparr>),
           (''modified'', VNone), (''type_'', VStr ''text/vnd.tiddlywiki'')]"
  let ?d = "\<lparr>year = 2018, month = 1, day = 11, hour = 17, minute = 49, second = 22, millisecond = 56\<rparr>"
  let ?tc = "[(''content'', VStr ''three''), (''title'', VStr ''c''), (''tags'', VList []),
           (''created'', VDate \<lparr>year = 2018, month = 1, day = 8, hour = 22, minute = 25,
                                  second = 50, millisecond = 419\<rparr>),
           (''modified'', VDate ?d), (''type_'', VStr ''text/vnd.tiddlywiki'')]"
  have h1: "re_tiddler_finditer ?buffer = ?pre @ (?options, ''two'') # []"
    by code_simp
  have h2: "raised (finditer_loop get_tag_list_spec string_to_date_spec ?pre) = None"
    by code_simp
  have h3: "helper_ok get_tag_list_spec (collect_attr ?options :: datetime pydict) ''tags''"
    by code_simp
  have h4: "map_of (collect_attr ?options :: datetime pydict) ''modified'' = Some (VStr ''yesterday'')"
    by code_simp
  have h5: "string_to_date_spec ''yesterday'' = Inl ValueError"
    by code_simp
  have h6: "ValueError \<noteq> KeyError"
    by simp
  have y: "map (\<lambda>t. map_of t ''title'')
      (yields (finditer_loop get_tag_list_spec string_to_date_spec ?pre)) = [Some (VStr ''a'')]"
    by code_simp
  have ba: "finditer_body get_tag_list_spec string_to_date_spec (?oa, ''one'') = Inr (Some ?ta)"
    by code_simp
  have na: "map_of (collect_attr ?oa :: datetime pydict) ''modified'' = None"
    by code_simp
  have bc: "finditer_body get_tag_list_spec string_to_date_spec (?oc, ''three'') = Inr (Some ?tc)"
    by code_simp
  have mc: "map_of (collect_attr ?oc :: datetime pydict) ''modified'' = Some (VStr ''20180111174922056'')"
    by code_simp
  have dc: "string_to_date_spec ''20180111174922056'' = Inr ?d"
    by code_simp
  note inst = modified_parse_error_raises
    [of ?buffer ?pre ?options "''two''" "[]" get_tag_list_spec string_to_date_spec "''yesterday''" ValueError]
  from inst h1 h2 h3 h4 h5 h6
  have r: "yields (finditer get_tag_list_spec string_to_date_spec ?buffer)
        = yields (finditer_loop get_tag_list_spec string_to_date_spec ?pre)
      \<and> raised (finditer get_tag_list_spec string_to_date_spec ?buffer) = Some ValueError"
    by blast
  from inst ba na have "map_of ?ta ''modified'' = Some VNone"
    by blast
  from inst bc mc dc have "map_of ?tc ''modified'' = Some (VDate ?d)"
    by blast
  from r y h1 h2 h3 h4 h5 h6 ba na bc mc dc show ?thesis
    by simp
qed

theorem modified_parse_error_counterexample:
  "satisfies_inclusion string_to_date_spec
     (collect_attr '' title=\"a\" created=\"20180108222550419\" modified=\"yesterday\"'' :: datetime pydict)
   \<and> finditer get_tag_list_spec string_to_date_spec
     ''<div title=\"a\" created=\"20180108222550419\" modified=\"yesterday\">\<newline><pre>one</pre>\<newline></div>''
   = Raise ValueError"
  by code_simp

text \<open>
  C10. A block that satisfies the inclusion rules and has an attribute named
  \<^verbatim>\<open>content\<close> makes the call of the constructor fail with a \<^verbatim>\<open>TypeError\<close>: \<^verbatim>\<open>finditer\<close>
  yields the tiddlers of the blocks before it and then raises, neither yielding nor
  skipping the block. The witness is such a buffer.
\<close>

theorem content_attribute_raises:
  assumes "re_tiddler_finditer buffer = pre @ (options, content) # post"
    and "raised (finditer_loop get_tag_list string_to_date pre) = None"
    and "helper_ok get_tag_list (collect_attr options :: 'd pydict) ''tags''"
    and "helper_ok (string_to_date :: string \<Rightarrow> pyexc + 'd) (collect_attr options :: 'd pydict) ''modified''"
    and "satisfies_inclusion string_to_date (collect_attr options :: 'd pydict)"
    and "map_of (collect_attr options :: 'd pydict) ''content'' \<noteq> None"
  shows "yields (finditer get_tag_list string_to_date buffer)
       = yields (finditer_loop get_tag_list string_to_date pre)
     \<and> raised (finditer get_tag_list string_to_date buffer) = Some TypeError"
  using assms(1,2)
proof (rule finditer_raises_at)
  show "finditer_body get_tag_list string_to_date (options, content) = Inl TypeError"
    using assms(3-6) by (rule finditer_body_content_raises)
qed

theorem content_attribute_raises_witness:
  "re_tiddler_finditer
      (block '' created=\"20180108222550419\" title=\"note\" content=\"x\"'' ''text'')
     = [] @ ('' created=\"20180108222550419\" title=\"note\" content=\"x\"'', ''text'') # []
   \<and> raised (finditer_loop get_tag_list_spec string_to_date_spec []) = None
   \<and> helper_ok get_tag_list_spec
        (collect_attr '' created=\"20180108222550419\" title=\"note\" content=\"x\"'' :: datetime pydict) ''tags''
   \<and> helper_ok string_to_date_spec
        (collect_attr '' created=\"20180108222550419\" title=\"note\" content=\"x\"'' :: datetime pydict)
        ''modified''
   \<and> satisfies_inclusion string_to_date_spec
        (collect_attr '' created=\"20180108222550419\" title=\"note\" content=\"x\"'' :: datetime pydict)
   \<and> map_of (collect_attr '' created=\"20180108222550419\" title=\"note\" content=\"x\"'' :: datetime pydict)
        ''content'' \<noteq> None
   \<and> finditer get_tag_list_spec string_to_date_spec
        (block '' created=\"20180108222550419\" title=\"note\" content=\"x\"'' ''text'')
       = Raise TypeError"
proof -
  let ?options = "'' created=\"20180108222550419\" title=\"note\" content=\"x\"''"
  let ?buffer = "block ?options ''text''"
  have h1: "re_tiddler_finditer ?buffer = [] @ (?options, ''text'') # []"
    by code_simp
  have h2: "raised (finditer_loop get_tag_list_spec string_to_date_spec []) = None"
    by simp
  have h3: "helper_ok get_tag_list_spec (collect_attr ?options :: datetime pydict) ''tags''"
    by code_simp
  have h4: "helper_ok string_to_date_spec (collect_attr ?options :: datetime pydict) ''modified''"
    by code_simp
  have h5: "satisfies_inclusion string_to_date_spec (collect_attr ?options :: datetime pydict)"
    by code_simp
  have h6: "map_of (collect_attr ?options :: datetime pydict) ''content'' \<noteq> None"
    by code_simp
  from content_attribute_raises [OF h1 h2 h3 h4 h5 h6]
  have "yields (finditer get_tag_list_spec string_to_date_spec ?buffer) = []"
    and "raised (finditer get_tag_list_spec string_to_date_spec ?buffer) = Some TypeError"
    by simp_all
  then have "finditer get_tag_list_spec string_to_date_spec ?buffer = Raise TypeError"
    by (cases "finditer get_tag_list_spec string_to_date_spec ?buffer") simp_all
  with h1 h2 h3 h4 h5 h6 show ?thesis by blast
qed

subsection \<open>The constructed tiddler\<close>

text \<open>
  C6. Every tiddler that \<^verbatim>\<open>finditer\<close> yields has a content that is a \<^verbatim>\<open>str\<close> and a \<^verbatim>\<open>tags\<close>
  attribute that is not \<^verbatim>\<open>None\<close>; and the tiddler yielded for a match without a \<^verbatim>\<open>tags\<close>
  attribute has the empty list as its tags.
\<close>

theorem tiddler_content_tags_not_none:
  "(\<forall>t \<in> set (yields (finditer get_tag_list (string_to_date :: string \<Rightarrow> pyexc + 'd) buffer)).
      (\<exists>c. map_of t ''content'' = Some (VStr c)) \<and> (\<exists>v. map_of t ''tags'' = Some v \<and> v \<noteq> VNone))
   \<and> (\<forall>t. finditer_body get_tag_list string_to_date (options, content) = Inr (Some t) \<longrightarrow>
          map_of (collect_attr options :: 'd pydict) ''tags'' = None \<longrightarrow>
          map_of t ''tags'' = Some (VList []))"
proof (rule conjI; intro ballI allI impI)
  fix t
  assume "t \<in> set (yields (finditer get_tag_list string_to_date buffer))"
  then obtain m where "finditer_body get_tag_list string_to_date m = Inr (Some t)"
    unfolding finditer_def using yields_finditer_loop by blast
  then obtain opts c where b: "finditer_body get_tag_list string_to_date (opts, c) = Inr (Some t)"
    by (cases m) simp
  from finditer_body_Some [OF b] obtain attr3 where all:
    "new_tiddler (VStr c) attr3 = Inr t \<and> distinct (map fst attr3)
      \<and> (\<forall>key. key \<noteq> ''tags'' \<and> key \<noteq> ''modified'' \<and> key \<noteq> ''created'' \<longrightarrow>
            map_of attr3 key = map_of (collect_attr opts) key)
      \<and> (map_of attr3 ''tags'' = None \<longleftrightarrow> map_of (collect_attr opts :: 'd pydict) ''tags'' = None)
      \<and> map_of attr3 ''tags'' \<noteq> Some VNone
      \<and> satisfies_inclusion string_to_date (collect_attr opts)"
    ..
  then have n: "new_tiddler (VStr c) attr3 = Inr t" "distinct (map fst attr3)"
    by simp_all
  have "map_of t ''content'' = Some (VStr c)"
    using new_tiddler_lookup [OF n, of "''content''"] by simp
  moreover have "\<exists>v. map_of t ''tags'' = Some v \<and> v \<noteq> VNone"
    using new_tiddler_lookup [OF n, of "''tags''"] by simp
  ultimately show "(\<exists>c. map_of t ''content'' = Some (VStr c))
      \<and> (\<exists>v. map_of t ''tags'' = Some v \<and> v \<noteq> VNone)"
    by blast
next
  fix t
  assume b: "finditer_body get_tag_list string_to_date (options, content) = Inr (Some t)"
    and no: "map_of (collect_attr options :: 'd pydict) ''tags'' = None"
  from finditer_body_Some [OF b] obtain attr3 where all:
    "new_tiddler (VStr content) attr3 = Inr t \<and> distinct (map fst attr3)
      \<and> (\<forall>key. key \<noteq> ''tags'' \<and> key \<noteq> ''modified'' \<and> key \<noteq> ''created'' \<longrightarrow>
            map_of attr3 key = map_of (collect_attr options) key)
      \<and> (map_of attr3 ''tags'' = None \<longleftrightarrow> map_of (collect_attr options :: 'd pydict) ''tags'' = None)
      \<and> map_of attr3 ''tags'' \<noteq> Some VNone
      \<and> satisfies_inclusion string_to_date (collect_attr options)"
    ..
  then have n: "new_tiddler (VStr content) attr3 = Inr t" "distinct (map fst attr3)"
    and "map_of attr3 ''tags'' = None"
    using no by simp_all
  then show "map_of t ''tags'' = Some (VList [])"
    using new_tiddler_lookup [OF n, of "''tags''"] by (simp add: arg_def)
qed

theorem tiddler_content_tags_not_none_witness:
  "yields (finditer get_tag_list_spec string_to_date_spec
      (block '' title=\"a\" created=\"20180108222550419\"'' ''''))
     = [[(''content'', VStr ''''), (''title'', VStr ''a''), (''tags'', VList []),
         (''created'', VDate \<lparr>year = 2018, month = 1, day = 8, hour = 22, minute = 25,
                                second = 50, millisecond = 419\<rparr>),
         (''modified'', VNone), (''type_'', VStr ''text/vnd.tiddlywiki'')]]
   \<and> finditer_body get_tag_list_spec string_to_date_spec
        ('' title=\"a\" created=\"20180108222550419\"'', '''')
     = Inr (Some [(''content'', VStr ''''), (''title'', VStr ''a''), (''tags'', VList []),
         (''created'', VDate \<lparr>year = 2018, month = 1, day = 8, hour = 22, minute = 25,
                                second = 50, millisecond = 419\<rparr>),
         (''modified'', VNone), (''type_'', VStr ''text/vnd.tiddlywiki'')])
   \<and> map_of (collect_attr '' title=\"a\" created=\"20180108222550419\"'' :: datetime pydict) ''tags'' = None
   \<and> (\<exists>c. map_of [(''content'', VStr ''''), (''title'', VStr ''a''), (''tags'', VList []),
         (''created'', VDate \<lparr>year = 2018, month = 1, day = 8, hour = 22, minute = 25,
                                second = 50, millisecond = 419\<rparr>),
         (''modified'', VNone), (''type_'', VStr ''text/vnd.tiddlywiki'')] ''content''
         = Some (VStr c))
   \<and> map_of [(''content'', VStr ''''), (''title'', VStr ''a''), (''tags'', VList []),
         (''created'', VDate \<lparr>year = 2018, month = 1, day = 8, hour = 22, minute = 25,
                                second = 50, millisecond = 419\<rparr>),
         (''modified'', VNone), (''type_'', VStr ''text/vnd.tiddlywiki'')] ''tags''
       = Some (VList [])"
proof -
  let ?t = "[(''content'', VStr ''''), (''title'', VStr ''a''), (''tags'', VList []),
         (''created'', VDate \<lparr>year = 2018, month = 1, day = 8, hour = 22, minute = 25,
                                second = 50, millisecond = 419\<rparr>),
         (''modified'', VNone), (''type_'', VStr ''text/vnd.tiddlywiki'')]"
  let ?options = "'' title=\"a\" created=\"20180108222550419\"''"
  let ?buffer = "block ?options ''''"
  have y: "yields (finditer get_tag_list_spec string_to_date_spec ?buffer) = [?t]"
    by code_simp
  have b: "finditer_body get_tag_list_spec string_to_date_spec (?options, '''') = Inr (Some ?t)"
    by code_simp
  have n: "map_of (collect_attr ?options :: datetime pydict) ''tags'' = None"
    by code_simp
  from tiddler_content_tags_not_none
    [of get_tag_list_spec string_to_date_spec ?buffer ?options "''''"]
  have "\<forall>t \<in> set (yields (finditer get_tag_list_spec string_to_date_spec ?buffer)).
      (\<exists>c. map_of t ''content'' = Some (VStr c)) \<and> (\<exists>v. map_of t ''tags'' = Some v \<and> v \<noteq> VNone)"
    and "\<forall>t. finditer_body get_tag_list_spec string_to_date_spec (?options, '''') = Inr (Some t) \<longrightarrow>
          map_of (collect_attr ?options :: datetime pydict) ''tags'' = None \<longrightarrow>
          map_of t ''tags'' = Some (VList [])"
    by blast+
  with y b n show ?thesis by simp
qed

text \<open>
  C8, as amended. In the tiddler yielded for a match, every attribute whose key is not a
  parameter of the constructor (\<^verbatim>\<open>title\<close>, \<^verbatim>\<open>tags\<close>, \<^verbatim>\<open>created\<close>, \<^verbatim>\<open>modified\<close>, \<^verbatim>\<open>type\<close>) is kept
  with its value as an attribute of the instance itself, stored in its \<^verbatim>\<open>__dict__\<close> under
  its own key; the instance has no attribute \<^verbatim>\<open>extra_attributes\<close> unless the options name
  one.
\<close>

theorem extra_attributes_in_instance_dict:
  assumes "finditer_body get_tag_list (string_to_date :: string \<Rightarrow> pyexc + 'd) (options, content)
      = Inr (Some t)"
  shows "(\<forall>key v. map_of (collect_attr options :: 'd pydict) key = Some v \<longrightarrow>
            key \<notin> set named_params \<longrightarrow> map_of t key = Some v)
    \<and> (map_of (collect_attr options :: 'd pydict) ''extra_attributes'' = None \<longrightarrow>
          map_of t ''extra_attributes'' = None)"
proof -
  from finditer_body_Some [OF assms] obtain attr3 where all:
    "new_tiddler (VStr content) attr3 = Inr t \<and> distinct (map fst attr3)
      \<and> (\<forall>key. key \<noteq> ''tags'' \<and> key \<noteq> ''modified'' \<and> key \<noteq> ''created'' \<longrightarrow>
            map_of attr3 key = map_of (collect_attr options) key)
      \<and> (map_of attr3 ''tags'' = None \<longleftrightarrow> map_of (collect_attr options :: 'd pydict) ''tags'' = None)
      \<and> map_of attr3 ''tags'' \<noteq> Some VNone
      \<and> satisfies_inclusion string_to_date (collect_attr options)"
    ..
  then have n: "new_tiddler (VStr content) attr3 = Inr t" "distinct (map fst attr3)"
    and same: "\<forall>key. key \<noteq> ''tags'' \<and> key \<noteq> ''modified'' \<and> key \<noteq> ''created'' \<longrightarrow>
            map_of attr3 key = map_of (collect_attr options) key"
    by simp_all
  from n(1) have noc: "map_of attr3 ''content'' = None"
    by (simp add: new_tiddler_def split: if_splits)
  have "map_of t key = Some v"
    if k: "map_of (collect_attr options :: 'd pydict) key = Some v" "key \<notin> set named_params"
    for key v
  proof -
    from k(2) have nk: "key \<noteq> ''title''" "key \<noteq> ''tags''" "key \<noteq> ''created''"
      "key \<noteq> ''modified''" "key \<noteq> ''type''"
      by (simp_all add: named_params_def)
    with same k(1) have a3: "map_of attr3 key = Some v" by simp
    with noc have "key \<noteq> ''content''" by auto
    with nk a3 show ?thesis
      using new_tiddler_lookup [OF n, of key] by (cases "key = ''type_''") simp_all
  qed
  moreover have "map_of t ''extra_attributes'' = None"
    if "map_of (collect_attr options :: 'd pydict) ''extra_attributes'' = None"
  proof -
    from same that have "map_of attr3 ''extra_attributes'' = None" by simp
    then show ?thesis
      using new_tiddler_lookup [OF n, of "''extra_attributes''"] by simp
  qed
  ultimately show ?thesis by blast
qed

theorem extra_attributes_in_instance_dict_witness:
  "finditer_body get_tag_list_spec string_to_date_spec
      ('' title=\"a\" created=\"20180108222550419\" color=\"red\" type_=\"zzz\"'', ''text'')
     = Inr (Some [(''content'', VStr ''text''), (''title'', VStr ''a''), (''tags'', VList []),
         (''created'', VDate \<lparr>year = 2018, month = 1, day = 8, hour = 22, minute = 25,
                                second = 50, millisecond = 419\<rparr>),
         (''modified'', VNone), (''type_'', VStr ''zzz''), (''color'', VStr ''red'')])
   \<and> map_of (collect_attr '' title=\"a\" created=\"20180108222550419\" color=\"red\" type_=\"zzz\"''
        :: datetime pydict) ''color'' = Some (VStr ''red'')
   \<and> ''color'' \<notin> set named_params
   \<and> map_of (collect_attr '' title=\"a\" created=\"20180108222550419\" color=\"red\" type_=\"zzz\"''
        :: datetime pydict) ''extra_attributes'' = None
   \<and> map_of [(''content'', VStr ''text''), (''title'', VStr ''a''), (''tags'', VList []),
         (''created'', VDate \<lparr>year = 2018, month = 1, day = 8, hour = 22, minute = 25,
                                second = 50, millisecond = 419\<rparr>),
         (''modified'', VNone), (''type_'', VStr ''zzz''), (''color'', VStr ''red'')] ''color''
       = Some (VStr ''red'')
   \<and> map_of [(''content'', VStr ''text''), (''title'', VStr ''a''), (''tags'', VList []),
         (''created'', VDate \<lparr>year = 2018, month = 1, day = 8, hour = 22, minute = 25,
                                second = 50, millisecond = 419\<rparr>),
         (''modified'', VNone), (''type_'', VStr ''zzz''), (''color'', VStr ''red'')] ''extra_attributes''
       = None"
proof -
  let ?t = "[(''content'', VStr ''text''), (''title'', VStr ''a''), (''tags'', VList []),
         (''created'', VDate \<lparr>year = 2018, month = 1, day = 8, hour = 22, minute = 25,
                                second = 50, millisecond = 419\<rparr>),
         (''modified'', VNone), (''type_'', VStr ''zzz''), (''color'', VStr ''red'')]"
  let ?options = "'' title=\"a\" created=\"20180108222550419\" color=\"red\" type_=\"zzz\"''"
  have b: "finditer_body get_tag_list_spec string_to_date_spec (?options, ''text'') = Inr (Some ?t)"
    by code_simp
  have k: "map_of (collect_attr ?options :: datetime pydict) ''color'' = Some (VStr ''red'')"
    by code_simp
  have p: "''color'' \<notin> set named_params"
    by code_simp
  have e: "map_of (collect_attr ?options :: datetime pydict) ''extra_attributes'' = None"
    by code_simp
  from extra_attributes_in_instance_dict [OF b] k p e
  have "map_of ?t ''color'' = Some (VStr ''red'')" and "map_of ?t ''extra_attributes'' = None"
    by blast+
  with b k p e show ?thesis by blast
qed

theorem extra_attributes_field_counterexample:
  "finditer get_tag_list_spec string_to_date_spec
      ''<div title=\"a\" created=\"20180108222550419\" color=\"red\">\<newline><pre>text</pre>\<newline></div>''
     = Yield [(''content'', VStr ''text''), (''title'', VStr ''a''), (''tags'', VList []),
         (''created'', VDate \<lparr>year = 2018, month = 1, day = 8, hour = 22, minute = 25,
                                second = 50, millisecond = 419\<rparr>),
         (''modified'', VNone), (''type_'', VStr ''text/vnd.tiddlywiki''), (''color'', VStr ''red'')]
       Stop
   \<and> map_of [(''content'', VStr ''text''), (''title'', VStr ''a''), (''tags'', VList []),
         (''created'', VDate \<lparr>year = 2018, month = 1, day = 8, hour = 22, minute = 25,
                                second = 50, millisecond = 419\<rparr>),
         (''modified'', VNone), (''type_'', VStr ''text/vnd.tiddlywiki''), (''color'', VStr ''red'')]
        ''extra_attributes'' = None"
  by code_simp

subsection \<open>The single-record lookup\<close>

text \<open>
  C4. For a buffer without any record block \<^verbatim>\<open>parse_from_string\<close> returns \<^verbatim>\<open>None\<close> and
  raises nothing; for a buffer whose extraction sequence is not empty it returns the
  first tiddler that \<^verbatim>\<open>finditer\<close> yields.
\<close>

theorem parse_from_string_first_or_none:
  "(re_tiddler_finditer buffer = [] \<longrightarrow>
      parse_from_string get_tag_list string_to_date buffer = Inr None)
   \<and> (\<forall>t ts. yields (finditer get_tag_list string_to_date buffer) = t # ts \<longrightarrow>
      parse_from_string get_tag_list string_to_date buffer = Inr (Some t))"
proof (intro conjI allI impI)
  assume "re_tiddler_finditer buffer = []"
  then show "parse_from_string get_tag_list string_to_date buffer = Inr None"
    by (simp add: parse_from_string_def finditer_def)
next
  fix t ts
  assume "yields (finditer get_tag_list string_to_date buffer) = t # ts"
  then show "parse_from_string get_tag_list string_to_date buffer = Inr (Some t)"
    by (cases "finditer get_tag_list string_to_date buffer") (simp_all add: parse_from_string_def)
qed

theorem parse_from_string_first_or_none_witness:
  "re_tiddler_finditer ''<div>no tiddler</div>'' = []
   \<and> parse_from_string get_tag_list_spec string_to_date_spec ''<div>no tiddler</div>'' = Inr None
   \<and> yields (finditer get_tag_list_spec string_to_date_spec
         ''<div title=\"a\" created=\"20180108222550419\">\<newline><pre>x</pre>\<newline></div>'')
       = [[(''content'', VStr ''x''), (''title'', VStr ''a''), (''tags'', VList []),
           (''created'', VDate \<lparr>year = 2018, month = 1, day = 8, hour = 22, minute = 25,
                                  second = 50, millisecond = 419\<rparr>),
           (''modified'', VNone), (''type_'', VStr ''text/vnd.tiddlywiki'')]]
   \<and> parse_from_string get_tag_list_spec string_to_date_spec
         ''<div title=\"a\" created=\"20180108222550419\">\<newline><pre>x</pre>\<newline></div>''
       = Inr (Some [(''content'', VStr ''x''), (''title'', VStr ''a''), (''tags'', VList []),
           (''created'', VDate \<lparr>year = 2018, month = 1, day = 8, hour = 22, minute = 25,
                                  second = 50, millisecond = 419\<rparr>),
           (''modified'', VNone), (''type_'', VStr ''text/vnd.tiddlywiki'')])"
proof -
  have none: "re_tiddler_finditer ''<div>no tiddler</div>'' = []"
    by code_simp
  have one: "yields (finditer get_tag_list_spec string_to_date_spec
         ''<div title=\"a\" created=\"20180108222550419\">\<newline><pre>x</pre>\<newline></div>'')
       = [[(''content'', VStr ''x''), (''title'', VStr ''a''), (''tags'', VList []),
           (''created'', VDate \<lparr>year = 2018, month = 1, day = 8, hour = 22, minute = 25,
                                  second = 50, millisecond = 419\<rparr>),
           (''modified'', VNone), (''type_'', VStr ''text/vnd.tiddlywiki'')]]"
    by code_simp
  from none one
    parse_from_string_first_or_none
      [of "''<div>no tiddler</div>''" get_tag_list_spec string_to_date_spec]
    parse_from_string_first_or_none
      [of "''<div title=\"a\" created=\"20180108222550419\">\<newline><pre>x</pre>\<newline></div>''"
          get_tag_list_spec string_to_date_spec]
  show ?thesis by blast
qed

end
